theory Spec2Isabelle
  imports Complex_Main "HOL-Library.Sublist" "HOL-Library.Log_Nat" "HOL-Library.Product_Lexorder"
begin

section \<open>Text primitives\<close>

text \<open>
  Texts are ASCII strings. \<open>is_space\<close> is the ASCII part of what Python's \<open>str.strip()\<close>
  removes and what \<open>\s\<close> matches in a \<open>str\<close> pattern: the codes 9 to 13, 28 to 31 and 32.
\<close>

definition is_space :: "char \<Rightarrow> bool" where
  "is_space c = (let n = (of_char c :: nat) in (9 \<le> n \<and> n \<le> 13) \<or> (28 \<le> n \<and> n \<le> 32))"

definition strip :: "string \<Rightarrow> string" where
  "strip s = rev (dropWhile is_space (rev (dropWhile is_space s)))"

text \<open>Python's \<open>sub in s\<close> on strings.\<close>

fun contains :: "string \<Rightarrow> string \<Rightarrow> bool" where
  "contains sub [] = (sub = [])"
| "contains sub (c # cs) = (prefix sub (c # cs) \<or> contains sub cs)"

text \<open>Python's \<open>str(n)\<close> for a natural number, as in \<open>f"Claim {i+1}"\<close>.\<close>

fun str_of_nat :: "nat \<Rightarrow> string" where
  "str_of_nat n =
     (if n < 10 then [char_of (48 + n)]
      else str_of_nat (n div 10) @ [char_of (48 + n mod 10)])"

declare str_of_nat.simps [simp del]

section \<open>JSON values and Python dictionaries\<close>

text \<open>
  What \<open>json.loads\<close> returns. Numbers are rationals (Python compares \<open>1\<close> and \<open>1.0\<close>
  equal); an object is an association list in insertion order with distinct keys, as a
  Python \<open>dict\<close> is.
\<close>

datatype json =
    JNull
  | JBool bool
  | JNum rat
  | JStr string
  | JArr "json list"
  | JObj "(string \<times> json) list"

text \<open>Python's truth value of a decoded JSON value (\<open>if not claims\<close>).\<close>

fun truthy :: "json \<Rightarrow> bool" where
  "truthy JNull = False"
| "truthy (JBool b) = b"
| "truthy (JNum n) = (n \<noteq> 0)"
| "truthy (JStr s) = (s \<noteq> [])"
| "truthy (JArr xs) = (xs \<noteq> [])"
| "truthy (JObj kvs) = (kvs \<noteq> [])"

text \<open>\<open>d[k] = v\<close>: an existing key keeps its position, a new key goes last.\<close>

fun dict_set :: "('k \<times> 'v) list \<Rightarrow> 'k \<Rightarrow> 'v \<Rightarrow> ('k \<times> 'v) list" where
  "dict_set [] k v = [(k, v)]"
| "dict_set ((k', v') # kvs) k v =
     (if k' = k then (k, v) # kvs else (k', v') # dict_set kvs k v)"

text \<open>\<open>d.get(k)\<close>: the value stored under the key, if any.\<close>

definition dict_get :: "('k \<times> 'v) list \<Rightarrow> 'k \<Rightarrow> 'v option" where
  "dict_get d k = map_of d k"

section \<open>A reference decoder for concrete texts\<close>

text \<open>
  \<open>json.loads\<close> belongs to Python's standard library, not to the repository. The
  functions below that call it take the decoder as a parameter \<open>loads\<close> (\<open>None\<close> stands
  for \<open>JSONDecodeError\<close>), so that what is proved about them holds for every decoder.
  \<open>json_loads\<close> is a reference decoder used to run them on concrete texts. It follows the
  standard decoder on ASCII texts: whitespace is space, tab, newline and carriage return;
  a trailing comma is an error; a repeated key keeps its last value; control characters
  inside a string are an error. Outside its fragment are \<open>\u\<close> escapes and the
  literals \<open>NaN\<close> and \<open>Infinity\<close>, which it rejects. Its recursion is bounded by a fuel
  of one more than the length of the text; without fuel the result is \<open>None\<close>.
\<close>

definition is_json_ws :: "char \<Rightarrow> bool" where
  "is_json_ws c = (c = CHR '' '' \<or> c = CHR 0x09 \<or> c = CHR 0x0A \<or> c = CHR 0x0D)"

definition skip_ws :: "string \<Rightarrow> string" where
  "skip_ws s = dropWhile is_json_ws s"

definition is_digit :: "char \<Rightarrow> bool" where
  "is_digit c = (let n = (of_char c :: nat) in 48 \<le> n \<and> n \<le> 57)"

definition nat_of_digits :: "string \<Rightarrow> nat" where
  "nat_of_digits ds = foldl (\<lambda>a c. 10 * a + (of_char c - 48)) 0 ds"

definition unescape :: "char \<Rightarrow> char option" where
  "unescape e =
     (if e = CHR 0x22 \<or> e = CHR 0x5C \<or> e = CHR ''/'' then Some e
      else if e = CHR ''b'' then Some (CHR 0x08)
      else if e = CHR ''f'' then Some (CHR 0x0C)
      else if e = CHR ''n'' then Some (CHR 0x0A)
      else if e = CHR ''r'' then Some (CHR 0x0D)
      else if e = CHR ''t'' then Some (CHR 0x09)
      else None)"

text \<open>The characters of a string literal after its opening quote, up to the closing one.\<close>

fun parse_chars :: "string \<Rightarrow> string \<Rightarrow> (string \<times> string) option" where
  "parse_chars acc [] = None"
| "parse_chars acc [c] = (if c = CHR 0x22 then Some (rev acc, []) else None)"
| "parse_chars acc (c # e # cs) =
     (if c = CHR 0x22 then Some (rev acc, e # cs)
      else if c = CHR 0x5C then
        (case unescape e of None \<Rightarrow> None | Some x \<Rightarrow> parse_chars (x # acc) cs)
      else if (of_char c :: nat) < 32 then None
      else parse_chars (c # acc) (e # cs))"

text \<open>
  A number: \<open>-?(0|[1-9]\d*)(\.\d+)?([eE][-+]?\d+)?\<close>, the longest match at the start of
  the text.
\<close>

definition parse_number :: "string \<Rightarrow> (rat \<times> string) option" where
  "parse_number s =
     (let neg = (s \<noteq> [] \<and> hd s = CHR ''-'');
          s1 = (if neg then tl s else s);
          ip = (if s1 \<noteq> [] \<and> hd s1 = CHR ''0'' then ''0'' else takeWhile is_digit s1);
          s2 = drop (length ip) s1;
          fp = (if s2 \<noteq> [] \<and> hd s2 = CHR ''.'' then takeWhile is_digit (tl s2) else []);
          s3 = (if fp = [] then s2 else drop (Suc (length fp)) s2);
          has_e = (s3 \<noteq> [] \<and> (hd s3 = CHR ''e'' \<or> hd s3 = CHR ''E''));
          s4 = (if has_e then tl s3 else s3);
          eneg = (has_e \<and> s4 \<noteq> [] \<and> hd s4 = CHR ''-'');
          s5 = (if has_e \<and> s4 \<noteq> [] \<and> (hd s4 = CHR ''-'' \<or> hd s4 = CHR ''+'') then tl s4 else s4);
          ep = (if has_e then takeWhile is_digit s5 else []);
          s6 = (if ep = [] then s3 else drop (length ep) s5);
          m = of_nat (nat_of_digits ip) + of_nat (nat_of_digits fp) / 10 ^ length fp;
          x = (if eneg then m / 10 ^ nat_of_digits ep else m * 10 ^ nat_of_digits ep)
      in if ip = [] then None else Some (if neg then - x else x, s6))"

fun parse_value :: "nat \<Rightarrow> string \<Rightarrow> (json \<times> string) option"
  and parse_elements :: "nat \<Rightarrow> json list \<Rightarrow> string \<Rightarrow> (json list \<times> string) option"
  and parse_members :: "nat \<Rightarrow> (string \<times> json) list \<Rightarrow> string \<Rightarrow> ((string \<times> json) list \<times> string) option"
where
  "parse_value 0 s = None"
| "parse_value (Suc n) s =
     (if s = [] then None
      else if hd s = CHR ''['' then
        (if skip_ws (tl s) \<noteq> [] \<and> hd (skip_ws (tl s)) = CHR '']''
         then Some (JArr [], tl (skip_ws (tl s)))
         else map_option (\<lambda>(xs, r). (JArr xs, r)) (parse_elements n [] (skip_ws (tl s))))
      else if hd s = CHR ''{'' then
        (if skip_ws (tl s) \<noteq> [] \<and> hd (skip_ws (tl s)) = CHR ''}''
         then Some (JObj [], tl (skip_ws (tl s)))
         else map_option (\<lambda>(kvs, r). (JObj kvs, r)) (parse_members n [] (skip_ws (tl s))))
      else if hd s = CHR 0x22 then map_option (\<lambda>(x, r). (JStr x, r)) (parse_chars [] (tl s))
      else if prefix ''null'' s then Some (JNull, drop 4 s)
      else if prefix ''true'' s then Some (JBool True, drop 4 s)
      else if prefix ''false'' s then Some (JBool False, drop 5 s)
      else map_option (\<lambda>(x, r). (JNum x, r)) (parse_number s))"
| "parse_elements 0 acc s = None"
| "parse_elements (Suc n) acc s =
     (case parse_value n s of
        None \<Rightarrow> None
      | Some (v, r) \<Rightarrow>
          (if skip_ws r = [] then None
           else if hd (skip_ws r) = CHR '']'' then Some (acc @ [v], tl (skip_ws r))
           else if hd (skip_ws r) = CHR '','' then parse_elements n (acc @ [v]) (skip_ws (tl (skip_ws r)))
           else None))"
| "parse_members 0 acc s = None"
| "parse_members (Suc n) acc s =
     (if s = [] \<or> hd s \<noteq> CHR 0x22 then None
      else case parse_chars [] (tl s) of
        None \<Rightarrow> None
      | Some (k, r) \<Rightarrow>
          (if skip_ws r = [] \<or> hd (skip_ws r) \<noteq> CHR '':'' then None
           else case parse_value n (skip_ws (tl (skip_ws r))) of
             None \<Rightarrow> None
           | Some (v, r') \<Rightarrow>
               (if skip_ws r' = [] then None
                else if hd (skip_ws r') = CHR ''}'' then Some (dict_set acc k v, tl (skip_ws r'))
                else if hd (skip_ws r') = CHR '','' then
                  parse_members n (dict_set acc k v) (skip_ws (tl (skip_ws r')))
                else None)))"

definition json_loads :: "string \<Rightarrow> json option" where
  "json_loads s =
     (case parse_value (Suc (length s)) (skip_ws s) of
        None \<Rightarrow> None
      | Some (v, r) \<Rightarrow> if skip_ws r = [] then Some v else None)"

section \<open>The regular expressions of the structured-output parsers\<close>

text \<open>
  \<open>re.sub(lit + r'\s*', '', text)\<close> for a non-empty literal \<open>lit\<close>: every occurrence of
  the literal, with the whitespace that follows it, is deleted, scanning from the left.
\<close>

function re_sub_fence :: "string \<Rightarrow> string \<Rightarrow> string" where
  "re_sub_fence lit [] = []"
| "re_sub_fence lit (c # cs) =
     (if lit \<noteq> [] \<and> prefix lit (c # cs)
      then re_sub_fence lit (dropWhile is_space (drop (length lit) (c # cs)))
      else c # re_sub_fence lit cs)"
  by pat_completeness auto
termination
proof (relation "measure (\<lambda>(lit, s). length s)")
  fix lit :: string and c cs
  assume "lit \<noteq> [] \<and> prefix lit (c # cs)"
  then have "length (drop (length lit) (c # cs)) < length (c # cs)"
    by (cases lit) auto
  moreover have "length (dropWhile is_space (drop (length lit) (c # cs)))
      \<le> length (drop (length lit) (c # cs))"
    by (rule length_dropWhile_le)
  ultimately show "((lit, dropWhile is_space (drop (length lit) (c # cs))), (lit, c # cs))
      \<in> measure (\<lambda>(lit, s). length s)"
    by simp
qed auto

text \<open>
  The first three statements of every \<open>extract_json_from_text\<close>: delete the
  \<open>```json\<close> markers, then the \<open>```\<close> markers, then strip.
\<close>

definition remove_code_fences :: "string \<Rightarrow> string" where
  "remove_code_fences text = strip (re_sub_fence ''```'' (re_sub_fence ''```json'' text))"

text \<open>
  \<open>re.search(opn + '.*' + cls, text, re.DOTALL)\<close> for two different characters: the
  match starts at the first \<open>opn\<close> and, \<open>.*\<close> being greedy, ends at the last \<open>cls\<close>
  after it; there is no match when no \<open>cls\<close> follows the first \<open>opn\<close>.
\<close>

definition re_search_greedy :: "char \<Rightarrow> char \<Rightarrow> string \<Rightarrow> string option" where
  "re_search_greedy opn cls text =
     (let from_open = dropWhile (\<lambda>c. c \<noteq> opn) text;
          m = rev (dropWhile (\<lambda>c. c \<noteq> cls) (rev from_open))
      in if m = [] then None else Some m)"

text \<open>
  \<open>re.sub(',\s*' + cls, cls, s)\<close>: a comma followed by whitespace and the closing
  character \<open>cls\<close> is replaced by the closing character.
\<close>

function re_sub_trailing_comma :: "char \<Rightarrow> string \<Rightarrow> string" where
  "re_sub_trailing_comma cls [] = []"
| "re_sub_trailing_comma cls (c # cs) =
     (if c = CHR '','' \<and> dropWhile is_space cs \<noteq> [] \<and> hd (dropWhile is_space cs) = cls
      then cls # re_sub_trailing_comma cls (tl (dropWhile is_space cs))
      else c # re_sub_trailing_comma cls cs)"
  by pat_completeness auto
termination
proof (relation "measure (\<lambda>(cls, s). length s)")
  fix cls c :: char and cs
  assume "c = CHR '','' \<and> dropWhile is_space cs \<noteq> [] \<and> hd (dropWhile is_space cs) = cls"
  then have "length (tl (dropWhile is_space cs)) < length (dropWhile is_space cs)"
    by (cases "dropWhile is_space cs") auto
  moreover have "length (dropWhile is_space cs) \<le> length cs"
    by (rule length_dropWhile_le)
  ultimately show "((cls, tl (dropWhile is_space cs)), (cls, c # cs))
      \<in> measure (\<lambda>(cls, s). length s)"
    by simp
qed auto

text \<open>
  \<open>re.split(r'[.!?]+', text)\<close>: the pieces between maximal runs of sentence
  punctuation, the empty pieces at both ends included.
\<close>

definition is_sentence_end :: "char \<Rightarrow> bool" where
  "is_sentence_end c = (c = CHR ''.'' \<or> c = CHR ''!'' \<or> c = CHR ''?'')"

function re_split_sentences :: "string \<Rightarrow> string list" where
  "re_split_sentences text =
     (let rest = dropWhile (\<lambda>c. \<not> is_sentence_end c) text
      in if rest = [] then [text]
         else takeWhile (\<lambda>c. \<not> is_sentence_end c) text
              # re_split_sentences (dropWhile is_sentence_end rest))"
  by pat_completeness auto
termination
proof (relation "measure length")
  fix s rest :: string
  assume r: "rest = dropWhile (\<lambda>c. \<not> is_sentence_end c) s" and ne: "rest \<noteq> []"
  then have "is_sentence_end (hd rest)"
    using hd_dropWhile [of "\<lambda>c. \<not> is_sentence_end c" s] by simp
  with ne have "length (dropWhile is_sentence_end rest) < length rest"
    by (cases rest) (auto simp: less_Suc_eq_le length_dropWhile_le)
  moreover have "length rest \<le> length s"
    unfolding r by (rule length_dropWhile_le)
  ultimately show "(dropWhile is_sentence_end rest, s) \<in> measure length"
    by simp
qed auto

declare re_split_sentences.simps [simp del]

section \<open>The structured-output parsers\<close>

text \<open>
  \<open>extract_json_from_text\<close> of \<open>claim_extractor_agent.py\<close>: the span from the first
  \<open>[\<close> to the last \<open>]\<close>, or else from the first \<open>{\<close> to the last \<open>}\<close>, is decoded; when
  the decoder rejects it, the commas before \<open>]\<close> and then those before \<open>}\<close> are
  removed and it is decoded once more. \<open>None\<close> is Python's \<open>None\<close>.
\<close>

definition ce_extract_json_from_text :: "(string \<Rightarrow> json option) \<Rightarrow> string \<Rightarrow> json option" where
  "ce_extract_json_from_text loads text0 =
     (let text = remove_code_fences text0;
          json_match = (case re_search_greedy (CHR ''['') (CHR '']'') text of
                          Some m \<Rightarrow> Some m
                        | None \<Rightarrow> re_search_greedy (CHR ''{'') (CHR ''}'') text)
      in case json_match of
           None \<Rightarrow> None
         | Some json_str \<Rightarrow>
             (case loads json_str of
                Some v \<Rightarrow> Some v
              | None \<Rightarrow>
                  loads (re_sub_trailing_comma (CHR ''}'')
                          (re_sub_trailing_comma (CHR '']'') json_str))))"

text \<open>
  \<open>extract_json_from_text\<close> of \<open>fact_checker_agent.py\<close>: only the span from the first
  \<open>{\<close> to the last \<open>}\<close> is tried, the commas before \<open>}\<close> are removed first, and when
  nothing decodes the result is a fixed one-entry dictionary.
\<close>

definition not_supported_record :: "string \<Rightarrow> string \<Rightarrow> json" where
  "not_supported_record evidence explanation =
     JObj [(''verification_status'', JStr ''NOT_SUPPORTED''),
           (''confidence'', JNum 0),
           (''evidence'', JStr evidence),
           (''explanation'', JStr explanation)]"

definition fc_parse_fallback :: json where
  "fc_parse_fallback =
     JObj [(''fallback'',
            not_supported_record ''JSON parsing failed'' ''Could not parse verification results'')]"

definition fc_extract_json_from_text :: "(string \<Rightarrow> json option) \<Rightarrow> string \<Rightarrow> json" where
  "fc_extract_json_from_text loads text0 =
     (let text = remove_code_fences text0
      in case re_search_greedy (CHR ''{'') (CHR ''}'') text of
           None \<Rightarrow> fc_parse_fallback
         | Some json_str \<Rightarrow>
             (case loads json_str of
                Some v \<Rightarrow> v
              | None \<Rightarrow>
                  (case loads (re_sub_trailing_comma (CHR '']'')
                                (re_sub_trailing_comma (CHR ''}'') json_str)) of
                     Some v \<Rightarrow> v
                   | None \<Rightarrow> fc_parse_fallback)))"

section \<open>Claim extraction\<close>

text \<open>
  \<open>extract_claims\<close> of \<open>claim_extractor_agent.py\<close>. \<open>response\<close> is the outcome of the one
  model call, \<open>Inl\<close> the message of the exception it raised and \<open>Inr\<close> the text of the
  response; a blank answer returns before the call is made.
\<close>

definition no_content_claims :: "string list" where
  "no_content_claims = [''No content available for claim extraction'']"

definition fixed_fallback_claims :: "string list" where
  "fixed_fallback_claims =
     [''The text discusses workflow status check scripts'',
      ''Chatbots handle L0 diagnostics for workflow issues'',
      ''The system involves escalation procedures for complex cases'']"

text \<open>Strategy 3: the stripped sentences of 21 to 199 characters, at most five.\<close>

definition sentence_claims :: "string \<Rightarrow> string list" where
  "sentence_claims text =
     take 5 [strip s. s \<leftarrow> re_split_sentences text,
                      20 < length (strip s) \<and> length (strip s) < 200]"

text \<open>The final filter: non-empty strings of more than 10 characters once stripped.\<close>

fun kept_claim :: "json \<Rightarrow> string option" where
  "kept_claim (JStr s) = (if s \<noteq> [] \<and> 10 < length (strip s) then Some s else None)"
| "kept_claim _ = None"

definition extract_claims :: "(string \<Rightarrow> json option) \<Rightarrow> string + string \<Rightarrow> string \<Rightarrow> string list" where
  "extract_claims loads response answer_text =
     (if answer_text = [] \<or> strip answer_text = [] then no_content_claims
      else case response of
        Inl e \<Rightarrow> fixed_fallback_claims
      | Inr response_text \<Rightarrow>
          (let parsed = (case loads response_text of
                           Some v \<Rightarrow> Some v
                         | None \<Rightarrow> ce_extract_json_from_text loads response_text);
               claims = (case parsed of
                           Some v \<Rightarrow> if truthy v then v
                                     else JArr (map JStr (sentence_claims response_text))
                         | None \<Rightarrow> JArr (map JStr (sentence_claims response_text)));
               claim_list = (case claims of
                               JArr xs \<Rightarrow> xs
                             | v \<Rightarrow> if truthy v then [v] else [])
           in List.map_filter kept_claim claim_list))"

section \<open>Claim verification\<close>

text \<open>
  The reconciliation loops of \<open>fact_check_claims\<close> (\<open>fact_checker_agent.py\<close>). The inner
  loop returns the value of the first result key that contains the claim text or the
  text \<open>Claim i+1\<close>; the outer loop stores, for the claim at index \<open>i\<close>, that value or the
  default record.
\<close>

fun find_result :: "(string \<times> json) list \<Rightarrow> nat \<Rightarrow> string \<Rightarrow> json option" where
  "find_result [] i claim = None"
| "find_result ((result_key, result_value) # rest) i claim =
     (if contains claim result_key \<or> contains (''Claim '' @ str_of_nat (i + 1)) result_key
      then Some result_value
      else find_result rest i claim)"

definition missing_claim_record :: json where
  "missing_claim_record =
     not_supported_record ''Claim not found in verification results''
       ''Verification system did not process this claim''"

fun reconcile :: "(string \<times> json) list \<Rightarrow> (string \<times> json) list \<Rightarrow> nat \<Rightarrow> string list
    \<Rightarrow> (string \<times> json) list" where
  "reconcile results final_results i [] = final_results"
| "reconcile results final_results i (claim # claims) =
     reconcile results
       (dict_set final_results claim
          (case find_result results i claim of
             Some result_value \<Rightarrow> result_value
           | None \<Rightarrow> missing_claim_record))
       (Suc i) claims"

text \<open>The dictionary comprehension of the \<open>except\<close> branch.\<close>

definition system_error_results :: "string \<Rightarrow> string list \<Rightarrow> (string \<times> json) list" where
  "system_error_results e claims =
     foldl (\<lambda>d claim. dict_set d claim
              (not_supported_record (''System error: '' @ e)
                 ''Fact checking failed due to system error''))
       [] claims"

text \<open>
  \<open>fact_check_claims\<close>. \<open>response\<close> is the outcome of the one model call (\<open>Inl\<close> the
  message of the exception). The context documents only enter the prompt. With
  \<open>json.loads\<close> the parsed results are always a dictionary, since the decoded span starts
  with \<open>{\<close>; for a decoder that returns another value \<open>results.items()\<close> raises inside
  the \<open>try\<close> as soon as there is a claim, which the last case records.
\<close>

definition fact_check_claims ::
    "(string \<Rightarrow> json option) \<Rightarrow> string + string \<Rightarrow> string list \<Rightarrow> string list
      \<Rightarrow> (string \<times> json) list" where
  "fact_check_claims loads response claims context_docs =
     (case response of
        Inl e \<Rightarrow> system_error_results e claims
      | Inr response_text \<Rightarrow>
          (case fc_extract_json_from_text loads response_text of
             JObj results \<Rightarrow> reconcile results [] 0 claims
           | _ \<Rightarrow> system_error_results ''object has no attribute items'' claims))"

text \<open>The empty-context branch of \<open>fact_checking_node\<close> (\<open>research_graph.py\<close>).\<close>

definition no_documents_record :: json where
  "no_documents_record =
     not_supported_record ''No documents available for verification''
       ''Cannot verify claims without source documents''"

definition fallback_claims :: "string list \<Rightarrow> (string \<times> json) list" where
  "fallback_claims claims = foldl (\<lambda>d claim. dict_set d claim no_documents_record) [] claims"

text \<open>\<open>verification.get(field)\<close> on a verification entry.\<close>

fun json_get :: "json \<Rightarrow> string \<Rightarrow> json option" where
  "json_get (JObj kvs) field = dict_get kvs field"
| "json_get _ field = None"

text \<open>An entry with status \<open>NOT_SUPPORTED\<close> and confidence 0.\<close>

definition is_not_supported_zero :: "json \<Rightarrow> bool" where
  "is_not_supported_zero v =
     (json_get v ''verification_status'' = Some (JStr ''NOT_SUPPORTED'')
      \<and> json_get v ''confidence'' = Some (JNum 0))"

section \<open>Python floats\<close>

text \<open>
  A Python float is an IEEE binary64 number. A finite float is modelled by the rational
  number it denotes, and every arithmetic operation by the exact operation followed by
  \<open>fl\<close>, the rounding to the nearest float with ties to the even significand: a float has
  53 significant bits, and below \<open>2 ^ (-1022)\<close> the spacing stays \<open>2 ^ (-1074)\<close> (gradual
  underflow). \<open>ilog2 x\<close> is the exponent \<open>e\<close> with \<open>2 ^ e \<le> x < 2 ^ (e + 1)\<close>, and \<open>ulp x\<close> the
  spacing of the floats around \<open>x\<close>. Results of magnitude \<open>2 ^ 1024\<close> and more (Python's
  \<open>inf\<close>) and Python integers beyond \<open>2 ^ 53\<close> are outside the model.
\<close>

definition round_half_even :: "rat \<Rightarrow> int" where
  "round_half_even y =
     (let f = \<lfloor>y\<rfloor>; d = y - of_int f
      in if d < 1 / 2 then f
         else if 1 / 2 < d then f + 1
         else if even f then f else f + 1)"

definition ilog2 :: "rat \<Rightarrow> int" where
  "ilog2 x = (if 1 \<le> x then bitlen \<lfloor>x\<rfloor> - 1 else - int (ceillog2 (nat \<lceil>1 / x\<rceil>)))"

definition ulp :: "rat \<Rightarrow> rat" where
  "ulp x = 2 powi (max (ilog2 x - 52) (- 1074))"

definition fl :: "rat \<Rightarrow> rat" where
  "fl x =
     (if x = 0 then 0
      else if 0 < x then of_int (round_half_even (x / ulp x)) * ulp x
      else - (of_int (round_half_even (- x / ulp (- x))) * ulp (- x)))"

text \<open>
  \<open>round(x, 2)\<close> on a float: the exact value of \<open>x\<close> is rounded to the nearest hundredth,
  a tie to the even one, and the float nearest to that decimal is returned.
\<close>

definition nearest_hundredth :: "rat \<Rightarrow> rat" where
  "nearest_hundredth x = of_int (round_half_even (x * 100)) / 100"

definition py_round2 :: "rat \<Rightarrow> rat" where
  "py_round2 x = fl (nearest_hundredth x)"

section \<open>Confidence aggregation\<close>

text \<open>
  \<open>py_number\<close> is the float an entry's confidence stands for in arithmetic with a float
  (\<open>None\<close>: the operation raises \<open>TypeError\<close>). The weights \<open>0.6\<close>, \<open>0.1\<close> and \<open>0.7\<close> are the
  floats nearest to those decimals.
\<close>

fun py_number :: "json \<Rightarrow> rat option" where
  "py_number (JNum x) = Some (fl x)"
| "py_number (JBool b) = Some (if b then 1 else 0)"
| "py_number _ = None"

text \<open>\<open>claim_data.get(field, dflt)\<close>; \<open>None\<close> when the entry is not a dictionary.\<close>

fun entry_get :: "json \<Rightarrow> string \<Rightarrow> json \<Rightarrow> json option" where
  "entry_get (JObj fields) field dflt =
     Some (case dict_get fields field of Some v \<Rightarrow> v | None \<Rightarrow> dflt)"
| "entry_get _ field dflt = None"

text \<open>
  \<open>calculate_overall_confidence\<close> of \<open>fact_checker_agent.py\<close>. The loop over
  \<open>verified_claims.values()\<close> carries \<open>(total_confidence, count)\<close>; a status outside the four
  keeps the initial weight \<open>1.0\<close>. \<open>None\<close>: the function raises.
\<close>

definition fc_weight :: "json \<Rightarrow> rat" where
  "fc_weight status =
     (if status = JStr ''SUPPORTED'' then 1
      else if status = JStr ''PARTIALLY_SUPPORTED'' then fl (6 / 10)
      else if status = JStr ''NOT_SUPPORTED'' then fl (1 / 10)
      else if status = JStr ''CONTRADICTED'' then 0
      else 1)"

fun fc_accumulate :: "json list \<Rightarrow> rat \<Rightarrow> nat \<Rightarrow> (rat \<times> nat) option" where
  "fc_accumulate [] total_confidence count = Some (total_confidence, count)"
| "fc_accumulate (claim_data # rest) total_confidence count =
     (case (entry_get claim_data ''confidence'' (JNum 0),
            entry_get claim_data ''verification_status'' (JStr ''NOT_SUPPORTED'')) of
        (Some confidence, Some status) \<Rightarrow>
          (case py_number confidence of
             Some c \<Rightarrow>
               fc_accumulate rest (fl (total_confidence + fl (c * fc_weight status))) (count + 1)
           | None \<Rightarrow> None)
      | _ \<Rightarrow> None)"

definition fc_calculate_overall_confidence :: "(string \<times> json) list \<Rightarrow> rat option" where
  "fc_calculate_overall_confidence verified_claims =
     (if verified_claims = [] then Some 0
      else case fc_accumulate (map snd verified_claims) 0 0 of
        Some (total_confidence, count) \<Rightarrow>
          Some (if 0 < count then py_round2 (fl (total_confidence / of_nat count)) else 0)
      | None \<Rightarrow> None)"

text \<open>
  \<open>calculate_overall_confidence\<close> of \<open>final_answer_agent.py\<close>. Only the four statuses
  count; \<open>SUPPORTED\<close> adds the confidence, \<open>PARTIALLY_SUPPORTED\<close> adds 0.7 of it, the other
  two add nothing (their confidence is never used in arithmetic) but are counted.
\<close>

definition four_statuses :: "string list" where
  "four_statuses = [''SUPPORTED'', ''PARTIALLY_SUPPORTED'', ''NOT_SUPPORTED'', ''CONTRADICTED'']"

fun fa_accumulate :: "json list \<Rightarrow> rat \<Rightarrow> nat \<Rightarrow> (rat \<times> nat) option" where
  "fa_accumulate [] total_confidence valid_claims = Some (total_confidence, valid_claims)"
| "fa_accumulate (verification # rest) total_confidence valid_claims =
     (case (entry_get verification ''confidence'' (JNum 0),
            entry_get verification ''verification_status'' (JStr ''NOT_SUPPORTED'')) of
        (Some confidence, Some status) \<Rightarrow>
          (if status \<in> set (map JStr four_statuses) then
             (if status = JStr ''SUPPORTED'' then
                (case py_number confidence of
                   Some c \<Rightarrow> fa_accumulate rest (fl (total_confidence + c)) (valid_claims + 1)
                 | None \<Rightarrow> None)
              else if status = JStr ''PARTIALLY_SUPPORTED'' then
                (case py_number confidence of
                   Some c \<Rightarrow>
                     fa_accumulate rest (fl (total_confidence + fl (c * fl (7 / 10))))
                       (valid_claims + 1)
                 | None \<Rightarrow> None)
              else fa_accumulate rest total_confidence (valid_claims + 1))
           else fa_accumulate rest total_confidence valid_claims)
      | _ \<Rightarrow> None)"

definition fa_calculate_overall_confidence :: "(string \<times> json) list \<Rightarrow> rat option" where
  "fa_calculate_overall_confidence verified_claims =
     (if verified_claims = [] then Some 0
      else case fa_accumulate (map snd verified_claims) 0 0 of
        Some (total_confidence, valid_claims) \<Rightarrow>
          Some (if valid_claims = 0 then 0
                else min 100 (py_round2 (fl (total_confidence / of_nat valid_claims))))
      | None \<Rightarrow> None)"

text \<open>
  A call of an aggregator as an effect on its argument: the mapping as it is after the
  call, and the value returned. Both functions only read the mapping (\<open>values()\<close>,
  \<open>items()\<close>, \<open>get\<close>) and assign to their two local counters, so the mapping after the call
  is the mapping received.
\<close>

definition fc_calculate_overall_confidence_call ::
    "(string \<times> json) list \<Rightarrow> (string \<times> json) list \<times> rat option" where
  "fc_calculate_overall_confidence_call verified_claims =
     (verified_claims, fc_calculate_overall_confidence verified_claims)"

definition fa_calculate_overall_confidence_call ::
    "(string \<times> json) list \<Rightarrow> (string \<times> json) list \<times> rat option" where
  "fa_calculate_overall_confidence_call verified_claims =
     (verified_claims, fa_calculate_overall_confidence verified_claims)"

text \<open>
  A well-formed verification entry: a dictionary whose status is one of the four and whose
  confidence is a number from 0 to 100.
\<close>

definition well_formed_verification :: "json \<Rightarrow> bool" where
  "well_formed_verification v =
     (case v of
        JObj fields \<Rightarrow>
          (case dict_get fields ''verification_status'' of
             Some (JStr s) \<Rightarrow> s \<in> set four_statuses
           | _ \<Rightarrow> False)
          \<and> (case dict_get fields ''confidence'' of
                Some (JNum c) \<Rightarrow> 0 \<le> c \<and> c \<le> 100
              | _ \<Rightarrow> False)
      | _ \<Rightarrow> False)"

section \<open>Documents, final answers and the pipeline state\<close>

text \<open>
  A retrieved document (\<open>page_content\<close>, \<open>metadata\<close>), and the dictionary form the reranker
  and the fact checker work on (\<open>content\<close>, \<open>metadata\<close>, and \<open>score\<close> once assigned).
\<close>

record document =
  page_content :: string
  metadata :: "(string \<times> string) list"

text \<open>
  A score is the Python float \<open>float(s)\<close> of what the scorer returned: a finite number,
  an infinity or \<open>NaN\<close>. Floats other than \<open>NaN\<close> are linearly ordered, which
  \<open>float_rank\<close> expresses with pairs in lexicographic order; \<open>NaN\<close> compares false with
  everything.
\<close>

datatype pyfloat = Finite rat | PosInf | NegInf | NaN

fun float_rank :: "pyfloat \<Rightarrow> int \<times> rat" where
  "float_rank (Finite x) = (0, x)"
| "float_rank PosInf = (1, 0)"
| "float_rank NegInf = (- 1, 0)"
| "float_rank NaN = (0, 0)"

text \<open>Python's \<open>a <= b\<close> on floats.\<close>

fun float_le :: "pyfloat \<Rightarrow> pyfloat \<Rightarrow> bool" where
  "float_le NaN b = False"
| "float_le a NaN = False"
| "float_le NegInf b = True"
| "float_le a PosInf = True"
| "float_le (Finite x) (Finite y) = (x \<le> y)"
| "float_le a b = False"

record ranked_doc =
  content :: string
  doc_metadata :: "(string \<times> string) list"
  score :: "pyfloat option"

text \<open>
  The final-answer dictionary. Its key \<open>final_answer\<close> is the field \<open>final_answer_text\<close>;
  \<open>claim_breakdown\<close> is \<open>None\<close> when the dictionary has no such key. \<open>verified_sources\<close> is
  \<open>list(sources_used)\<close>, a list without repetitions whose order Python leaves open.
\<close>

record claim_counts =
  supported :: nat
  partially_supported :: nat
  not_supported :: nat
  contradicted :: nat

record answer_record =
  final_answer_text :: string
  confidence_score :: rat
  verified_sources :: "string list"
  limitations :: string
  claim_breakdown :: "claim_counts option"

definition breakdown_total :: "answer_record \<Rightarrow> nat option" where
  "breakdown_total a =
     map_option (\<lambda>b. supported b + partially_supported b + not_supported b + contradicted b)
       (claim_breakdown a)"

text \<open>
  \<open>ResearchState\<close>. \<open>refined_query\<close> and \<open>error\<close> are read with \<open>state.get\<close>, so they are
  options (\<open>None\<close>: the key is absent); \<open>final_answer\<close> is \<open>None\<close> for the empty dictionary
  the pipeline starts with.
\<close>

record research_state =
  original_query :: string
  refined_query :: "string option"
  retrieved_docs :: "document list"
  reranked_docs :: "document list"
  draft_answer :: string
  extracted_claims :: "string list"
  verified_claims :: "(string \<times> json) list"
  final_answer :: "answer_record option"
  error :: "string option"

section \<open>Composing the final answer\<close>

text \<open>
  The tally loop of \<open>generate_final_answer\<close> (\<open>final_answer_agent.py\<close>): a claim goes to
  the list of its status, and to none when the status is not one of the four (the default
  for a missing status is \<open>UNKNOWN\<close>). \<open>None\<close>: \<open>verification.get\<close> raises because the entry
  is not a dictionary.
\<close>

record claim_lists =
  supported_claims :: "string list"
  partially_supported_claims :: "string list"
  not_supported_claims :: "string list"
  contradicted_claims :: "string list"

definition actual_claim :: "string \<Rightarrow> string" where
  "actual_claim claim_key =
     (if prefix ''claim_'' claim_key \<and> contains ''_text'' claim_key
      then ''Claim '' @ claim_key else claim_key)"

fun sort_claims :: "(string \<times> json) list \<Rightarrow> claim_lists \<Rightarrow> claim_lists option" where
  "sort_claims [] ls = Some ls"
| "sort_claims ((claim_key, verification) # rest) ls =
     (case entry_get verification ''verification_status'' (JStr ''UNKNOWN'') of
        None \<Rightarrow> None
      | Some status \<Rightarrow>
          sort_claims rest
            (if status = JStr ''SUPPORTED'' then
               ls\<lparr>supported_claims := supported_claims ls @ [actual_claim claim_key]\<rparr>
             else if status = JStr ''PARTIALLY_SUPPORTED'' then
               ls\<lparr>partially_supported_claims :=
                    partially_supported_claims ls @ [actual_claim claim_key]\<rparr>
             else if status = JStr ''NOT_SUPPORTED'' then
               ls\<lparr>not_supported_claims := not_supported_claims ls @ [actual_claim claim_key]\<rparr>
             else if status = JStr ''CONTRADICTED'' then
               ls\<lparr>contradicted_claims := contradicted_claims ls @ [actual_claim claim_key]\<rparr>
             else ls))"

definition no_claims :: claim_lists where
  "no_claims = \<lparr>supported_claims = [], partially_supported_claims = [],
                 not_supported_claims = [], contradicted_claims = []\<rparr>"

text \<open>The source identifiers of the context documents, \<open>Document i\<close> where none is given.\<close>

definition sources_used :: "document list \<Rightarrow> string list" where
  "sources_used context_docs =
     remdups (map (\<lambda>(i, doc). case dict_get (metadata doc) ''source'' of
                                 Some s \<Rightarrow> s
                               | None \<Rightarrow> ''Document '' @ str_of_nat (i + 1))
                (enumerate 0 context_docs))"

text \<open>
  \<open>generate_final_answer\<close>. \<open>response\<close> is the outcome of the one model call. \<open>None\<close>: the
  function raises, which happens before the \<open>try\<close>, in the tally loop or in the
  aggregator.
\<close>

definition generate_final_answer ::
    "string \<Rightarrow> (string \<times> json) list \<Rightarrow> document list \<Rightarrow> string + string
      \<Rightarrow> answer_record option" where
  "generate_final_answer query verified context_docs response =
     (case sort_claims verified no_claims of
        None \<Rightarrow> None
      | Some ls \<Rightarrow>
          (case fa_calculate_overall_confidence verified of
             None \<Rightarrow> None
           | Some overall_confidence \<Rightarrow>
               Some \<lparr>final_answer_text =
                        (case response of
                           Inr response_text \<Rightarrow> response_text
                         | Inl e \<Rightarrow>
                             ''I encountered an error while generating the final answer: '' @ e),
                     confidence_score = overall_confidence,
                     verified_sources = sources_used context_docs,
                     limitations =
                        (case response of
                           Inr response_text \<Rightarrow>
                             ''Based on verification: ''
                             @ str_of_nat (length (supported_claims ls)) @ '' supported, ''
                             @ str_of_nat (length (not_supported_claims ls))
                             @ '' not supported claims''
                         | Inl e \<Rightarrow> ''System error during answer generation''),
                     claim_breakdown =
                        Some \<lparr>supported = length (supported_claims ls),
                              partially_supported = length (partially_supported_claims ls),
                              not_supported = length (not_supported_claims ls),
                              contradicted = length (contradicted_claims ls)\<rparr>\<rparr>))"

text \<open>
  \<open>error_node\<close> (\<open>research_graph.py\<close>). The record it stores has four keys and no
  \<open>claim_breakdown\<close>. The cross-mark that starts the message is not ASCII and is left out.
\<close>

definition error_answer :: "string \<Rightarrow> answer_record" where
  "error_answer error_msg =
     \<lparr>final_answer_text = ''Pipeline Error: '' @ error_msg,
      confidence_score = 0,
      verified_sources = [],
      limitations = ''System error prevented complete processing'',
      claim_breakdown = None\<rparr>"

definition error_node :: "research_state \<Rightarrow> research_state" where
  "error_node state =
     (let error_msg = (case error state of Some e \<Rightarrow> e | None \<Rightarrow> ''Unknown error occurred'')
      in state\<lparr>final_answer := Some (error_answer error_msg)\<rparr>)"

text \<open>Whether an entry's status is one of the four that the tally counts.\<close>

definition counted_status :: "json \<Rightarrow> bool" where
  "counted_status v =
     (case entry_get v ''verification_status'' (JStr ''UNKNOWN'') of
        Some status \<Rightarrow> status \<in> set (map JStr four_statuses)
      | None \<Rightarrow> False)"

text \<open>The number of claims the tally has placed so far.\<close>

definition list_total :: "claim_lists \<Rightarrow> nat" where
  "list_total ls = length (supported_claims ls) + length (partially_supported_claims ls)
     + length (not_supported_claims ls) + length (contradicted_claims ls)"

section \<open>Reranking\<close>

text \<open>\<open>convert_docs_to_reranker_format\<close> (\<open>retrieval_utils.py\<close>): a new dictionary per document.\<close>

definition convert_docs_to_reranker_format :: "document list \<Rightarrow> ranked_doc list" where
  "convert_docs_to_reranker_format docs =
     map (\<lambda>doc. \<lparr>content = page_content doc, doc_metadata = metadata doc, score = None\<rparr>) docs"

text \<open>
  The loop \<open>for i, s in enumerate(scores): docs[i]["score"] = float(s)\<close>; \<open>None\<close> is the
  \<open>IndexError\<close> when there are more scores than documents.
\<close>

fun assign_scores :: "ranked_doc list \<Rightarrow> pyfloat list \<Rightarrow> ranked_doc list option" where
  "assign_scores docs [] = Some docs"
| "assign_scores [] (s # ss) = None"
| "assign_scores (d # docs) (s # ss) =
     map_option (\<lambda>rest. d\<lparr>score := Some s\<rparr> # rest) (assign_scores docs ss)"

text \<open>
  \<open>sorted(xs, key=key, reverse=True)\<close> on keys that are linearly ordered: Python sorts the
  reversed list with its stable sort and reverses the result, so that equal keys keep
  their original order.
\<close>

definition sorted_desc :: "('a \<Rightarrow> 'k::linorder) \<Rightarrow> 'a list \<Rightarrow> 'a list" where
  "sorted_desc key xs = rev (sort_key key (rev xs))"

definition score_key :: "ranked_doc \<Rightarrow> int \<times> rat" where
  "score_key d = (case score d of Some s \<Rightarrow> float_rank s | None \<Rightarrow> (0, 0))"

text \<open>
  \<open>RerankerAgent.rerank\<close> (\<open>reranker_agent.py\<close>). \<open>predict\<close> is the scorer: it receives the
  (query, content) pairs and returns the scores or raises (\<open>Inl\<close>). Sorting raises
  \<open>KeyError\<close> when a document has no score. When a score is \<open>NaN\<close> the comparisons the
  sort makes are not those of an order, and the arrangement \<open>sorted\<close> returns depends on
  the steps of Python's sorting algorithm; it is the parameter \<open>nan_sorted\<close>.
\<close>

definition rerank ::
    "((string \<times> string) list \<Rightarrow> string + pyfloat list) \<Rightarrow> (ranked_doc list \<Rightarrow> ranked_doc list)
      \<Rightarrow> string \<Rightarrow> ranked_doc list \<Rightarrow> nat \<Rightarrow> string + ranked_doc list" where
  "rerank predict nan_sorted query docs top_k =
     (if docs = [] then Inr []
      else case predict (map (\<lambda>d. (query, content d)) docs) of
        Inl e \<Rightarrow> Inl e
      | Inr scores \<Rightarrow>
          (case assign_scores docs scores of
             None \<Rightarrow> Inl ''list index out of range''
           | Some scored \<Rightarrow>
               if list_ex (\<lambda>d. score d = None) scored then Inl ([CHR 0x27] @ ''score'' @ [CHR 0x27])
               else if list_ex (\<lambda>d. score d = Some NaN) scored
               then Inr (take top_k (nan_sorted scored))
               else Inr (take top_k (sorted_desc score_key scored))))"

text \<open>\<open>state.get("refined_query", state["original_query"])\<close>, the query of every stage.\<close>

definition stage_query :: "research_state \<Rightarrow> string" where
  "stage_query state =
     (case refined_query state of Some refined \<Rightarrow> refined | None \<Rightarrow> original_query state)"

text \<open>
  The inner loop of \<open>reranker_node\<close>: the first retrieved document with the content of
  the ranked item, or nothing.
\<close>

definition original_of :: "document list \<Rightarrow> ranked_doc \<Rightarrow> document list" where
  "original_of docs ranked_doc =
     (case find (\<lambda>original_doc. page_content original_doc = content ranked_doc) docs of
        Some original_doc \<Rightarrow> [original_doc]
      | None \<Rightarrow> [])"

definition reranker_node ::
    "((string \<times> string) list \<Rightarrow> string + pyfloat list) \<Rightarrow> (ranked_doc list \<Rightarrow> ranked_doc list)
      \<Rightarrow> research_state \<Rightarrow> research_state" where
  "reranker_node predict nan_sorted state =
     (if retrieved_docs state \<noteq> [] then
        (case rerank predict nan_sorted (stage_query state)
                (convert_docs_to_reranker_format (retrieved_docs state)) 3 of
           Inl e \<Rightarrow> state\<lparr>error := Some (''Reranking failed: '' @ e)\<rparr>
         | Inr ranked_docs \<Rightarrow>
             state\<lparr>reranked_docs := concat (map (original_of (retrieved_docs state)) ranked_docs)\<rparr>)
      else state\<lparr>reranked_docs := []\<rparr>)"

text \<open>The pairs (query, content) the scorer receives for a state.\<close>

definition scorer_input :: "research_state \<Rightarrow> (string \<times> string) list" where
  "scorer_input state = map (\<lambda>doc. (stage_query state, page_content doc)) (retrieved_docs state)"

text \<open>The scored dictionary \<open>rerank\<close> works on for a retrieved document and its score.\<close>

definition scored_doc :: "document \<times> pyfloat \<Rightarrow> ranked_doc" where
  "scored_doc p = \<lparr>content = page_content (fst p), doc_metadata = metadata (fst p), score = Some (snd p)\<rparr>"

section \<open>The stages of the pipeline\<close>

text \<open>
  The external collaborators, each a function from what the stage passes to it to its
  outcome: \<open>Inr\<close> the value returned, \<open>Inl\<close> the message of the exception raised. The
  language-model calls receive the data their prompt is built from. \<open>c_loads\<close> is the JSON
  decoder and \<open>c_nan_sorted\<close> the arrangement Python's sort returns for scores with a
  \<open>NaN\<close>.
\<close>

record collaborators =
  c_reformulate :: "string \<Rightarrow> string + string"
  c_search :: "string \<Rightarrow> nat \<Rightarrow> string + document list"
  c_predict :: "(string \<times> string) list \<Rightarrow> string + pyfloat list"
  c_nan_sorted :: "ranked_doc list \<Rightarrow> ranked_doc list"
  c_reason :: "string \<Rightarrow> string \<Rightarrow> string + string"
  c_extract :: "string \<Rightarrow> string + string"
  c_verify :: "string list \<Rightarrow> string list \<Rightarrow> string + string"
  c_compose :: "string \<Rightarrow> (string \<times> json) list \<Rightarrow> document list \<Rightarrow> string + string"
  c_loads :: "string \<Rightarrow> json option"

text \<open>\<open>query_understanding_node\<close>: the refined query, or the error.\<close>

definition query_understanding_node :: "collaborators \<Rightarrow> research_state \<Rightarrow> research_state" where
  "query_understanding_node c state =
     (case c_reformulate c (original_query state) of
        Inr refined \<Rightarrow> state\<lparr>refined_query := Some refined\<rparr>
      | Inl e \<Rightarrow> state\<lparr>error := Some (''Query understanding failed: '' @ e)\<rparr>)"

text \<open>
  \<open>run_retriever\<close> (\<open>retriever_agent.py\<close>) returns the documents found and the empty list
  when the search fails; \<open>retrieval_node\<close> calls it with the stage query and \<open>top_k=5\<close>.
\<close>

definition run_retriever :: "collaborators \<Rightarrow> string \<Rightarrow> nat \<Rightarrow> document list" where
  "run_retriever c query top_k =
     (case c_search c query top_k of Inr docs \<Rightarrow> docs | Inl e \<Rightarrow> [])"

definition retrieval_node :: "collaborators \<Rightarrow> research_state \<Rightarrow> research_state" where
  "retrieval_node c state = state\<lparr>retrieved_docs := run_retriever c (stage_query state) 5\<rparr>"

text \<open>\<open>"\n\n".join(parts)\<close>.\<close>

fun join_paragraphs :: "string list \<Rightarrow> string" where
  "join_paragraphs [] = []"
| "join_paragraphs [p] = p"
| "join_paragraphs (p # q # ps) = p @ [CHR 0x0A, CHR 0x0A] @ join_paragraphs (q # ps)"

text \<open>
  \<open>reasoning_node\<close>. The first component of the result is the dictionary the node received
  as it is after the call, the second the dictionary the node returns. With no context
  document the node executes \<open>state["draft_answer"] = ...; return state\<close>: it assigns into
  what it received and returns that same dictionary. The other branches build a new
  dictionary with \<open>{**state, ...}\<close>.
\<close>

definition no_documents_answer :: string where
  "no_documents_answer = ''No relevant documents found to answer the query.''"

definition reasoning_node ::
    "collaborators \<Rightarrow> research_state \<Rightarrow> research_state \<times> research_state" where
  "reasoning_node c state =
     (let query = stage_query state;
          context_docs = (if reranked_docs state = [] then retrieved_docs state
                          else reranked_docs state)
      in if context_docs = [] then
           (state\<lparr>draft_answer := no_documents_answer\<rparr>,
            state\<lparr>draft_answer := no_documents_answer\<rparr>)
         else case c_reason c (join_paragraphs (map page_content context_docs)) query of
           Inr draft \<Rightarrow> (state, state\<lparr>draft_answer := draft\<rparr>)
         | Inl e \<Rightarrow> (state, state\<lparr>error := Some (''Reasoning failed: '' @ e)\<rparr>))"

text \<open>\<open>claim_extraction_node\<close>; \<open>extract_claims\<close> catches every exception itself.\<close>

definition claim_extraction_node :: "collaborators \<Rightarrow> research_state \<Rightarrow> research_state" where
  "claim_extraction_node c state =
     state\<lparr>extracted_claims :=
       extract_claims (c_loads c) (c_extract c (draft_answer state)) (draft_answer state)\<rparr>"

text \<open>\<open>fact_checking_node\<close>: the fallback without documents, else \<open>fact_check_claims\<close>.\<close>

definition context_of :: "research_state \<Rightarrow> document list" where
  "context_of state =
     (if reranked_docs state \<noteq> [] then reranked_docs state else retrieved_docs state)"

definition fact_checking_node :: "collaborators \<Rightarrow> research_state \<Rightarrow> research_state" where
  "fact_checking_node c state =
     (if context_of state = [] then
        state\<lparr>verified_claims := fallback_claims (extracted_claims state)\<rparr>
      else
        state\<lparr>verified_claims :=
          fact_check_claims (c_loads c)
            (c_verify c (extracted_claims state) (map page_content (context_of state)))
            (extracted_claims state) (map page_content (context_of state))\<rparr>)"

text \<open>
  \<open>final_answer_node\<close>; when \<open>generate_final_answer\<close> raises, the node stores the error
  (the text of the exception after the prefix is not modelled).
\<close>

definition final_answer_node :: "collaborators \<Rightarrow> research_state \<Rightarrow> research_state" where
  "final_answer_node c state =
     (case generate_final_answer (original_query state) (verified_claims state)
             (context_of state)
             (c_compose c (original_query state) (verified_claims state) (context_of state)) of
        Some final \<Rightarrow> state\<lparr>final_answer := Some final\<rparr>
      | None \<Rightarrow> state\<lparr>error := Some ''Final answer generation failed: ''\<rparr>)"

section \<open>The graph and its execution\<close>

text \<open>
  \<open>build_research_graph\<close> adds eight nodes, seven edges with \<open>add_edge\<close> (the last one to
  \<open>END\<close>, here \<open>None\<close>) and six conditional edges with \<open>add_conditional_edges\<close>, each a
  function of the state that returns the name of the next node.
\<close>

datatype node =
    Query_understanding
  | Retrieval
  | Reranking
  | Reasoning
  | Claim_extraction
  | Fact_checking
  | Final_answer
  | Error_handler

definition edges :: "(node \<times> node option) list" where
  "edges =
     [(Query_understanding, Some Retrieval),
      (Retrieval, Some Reranking),
      (Reranking, Some Reasoning),
      (Reasoning, Some Claim_extraction),
      (Claim_extraction, Some Fact_checking),
      (Fact_checking, Some Final_answer),
      (Final_answer, None)]"

text \<open>The truth value of \<open>state.get("error")\<close>.\<close>

definition error_set :: "research_state \<Rightarrow> bool" where
  "error_set state = (case error state of Some e \<Rightarrow> e \<noteq> [] | None \<Rightarrow> False)"

definition conditional_edges :: "(node \<times> (research_state \<Rightarrow> node)) list" where
  "conditional_edges =
     [(Query_understanding, \<lambda>state. if error_set state then Error_handler else Retrieval),
      (Retrieval, \<lambda>state. if error_set state then Error_handler else Reranking),
      (Reranking, \<lambda>state. if error_set state then Error_handler else Reasoning),
      (Reasoning, \<lambda>state. if error_set state then Error_handler else Claim_extraction),
      (Claim_extraction, \<lambda>state. if error_set state then Error_handler else Fact_checking),
      (Fact_checking, \<lambda>state. if error_set state then Error_handler else Final_answer)]"

definition run_node :: "collaborators \<Rightarrow> node \<Rightarrow> research_state \<Rightarrow> research_state" where
  "run_node c n state =
     (case n of
        Query_understanding \<Rightarrow> query_understanding_node c state
      | Retrieval \<Rightarrow> retrieval_node c state
      | Reranking \<Rightarrow> reranker_node (c_predict c) (c_nan_sorted c) state
      | Reasoning \<Rightarrow> snd (reasoning_node c state)
      | Claim_extraction \<Rightarrow> claim_extraction_node c state
      | Fact_checking \<Rightarrow> fact_checking_node c state
      | Final_answer \<Rightarrow> final_answer_node c state
      | Error_handler \<Rightarrow> error_node state)"

text \<open>
  The execution of a compiled \<open>StateGraph\<close>, as the library documents it. The graph runs
  in steps. After a node has run, every node that an \<open>add_edge\<close> from it names is
  scheduled for the next step, and so is the node its conditional edge returns on the
  state the node produced: the two kinds of edge add up, neither replaces the other. The
  nodes scheduled for a step all run on the same state. A key of \<open>ResearchState\<close> has no
  reducer, so it accepts one write per step: when two nodes of a step both return a
  value for a key, \<open>invoke\<close> raises \<open>InvalidUpdateError\<close>, and every node here returns the
  whole state. The run ends when no node is scheduled; \<open>invoke\<close> raises after 25 steps.
\<close>

definition successors :: "node \<Rightarrow> research_state \<Rightarrow> node list" where
  "successors n state =
     remdups (List.map_filter (\<lambda>(a, b). if a = n then b else None) edges
              @ List.map_filter (\<lambda>(a, f). if a = n then Some (f state) else None)
                  conditional_edges)"

fun invoke_steps ::
    "nat \<Rightarrow> collaborators \<Rightarrow> node list \<Rightarrow> research_state \<Rightarrow> node list
      \<Rightarrow> node list \<times> (string + research_state)" where
  "invoke_steps 0 c active state executed =
     (executed, if active = [] then Inr state else Inl ''Recursion limit of 25 reached'')"
| "invoke_steps (Suc k) c active state executed =
     (case active of
        [] \<Rightarrow> (executed, Inr state)
      | [n] \<Rightarrow>
          invoke_steps k c (successors n (run_node c n state)) (run_node c n state)
            (executed @ [n])
      | n # m # rest \<Rightarrow>
          (executed @ active, Inl ''Can receive only one value per step''))"

text \<open>
  \<open>research_graph.invoke(initial_state)\<close> from the entry point: the nodes executed, in
  order, and the final state or the message of the exception.
\<close>

definition invoke :: "collaborators \<Rightarrow> research_state \<Rightarrow> node list \<times> (string + research_state)" where
  "invoke c state = invoke_steps 25 c [Query_understanding] state []"

text \<open>
  \<open>run_research_pipeline\<close>: the state the graph ends in, or the dictionary of the \<open>except\<close>
  branch with its final answer and error text. The attached logs are left out.
\<close>

definition initial_state :: "string \<Rightarrow> research_state" where
  "initial_state query =
     \<lparr>original_query = query, refined_query = Some [], retrieved_docs = [],
      reranked_docs = [], draft_answer = [], extracted_claims = [], verified_claims = [],
      final_answer = None, error = Some []\<rparr>"

datatype pipeline_result =
    Completed research_state
  | System_failure answer_record string

definition run_research_pipeline :: "collaborators \<Rightarrow> string \<Rightarrow> pipeline_result" where
  "run_research_pipeline c query =
     (case snd (invoke c (initial_state query)) of
        Inr result \<Rightarrow> Completed result
      | Inl e \<Rightarrow>
          System_failure
            \<lparr>final_answer_text = ''System Error: '' @ e, confidence_score = 0,
             verified_sources = [], limitations = ''Critical system failure'',
             claim_breakdown = None\<rparr> e)"

text \<open>
  Collaborators for running the pipeline on examples. The search returns one document
  whose content is the query it was called with, which makes that query visible in the
  state; the model calls return fixed texts. \<open>failing_refiner\<close> is the same except that
  the query refinement raises, \<open>blank_refiner\<close> except that it returns the empty text.
\<close>

definition echo_collaborators :: collaborators where
  "echo_collaborators =
     \<lparr>c_reformulate = (\<lambda>query. Inr (''refined: '' @ query)),
      c_search = (\<lambda>query top_k. Inr [\<lparr>page_content = query, metadata = [(''source'', ''echo.txt'')]\<rparr>]),
      c_predict = (\<lambda>pairs. Inr (map (\<lambda>p. Finite 1) pairs)),
      c_nan_sorted = (\<lambda>docs. docs),
      c_reason = (\<lambda>context_text query. Inr ''The sky is blue on clear days.''),
      c_extract = (\<lambda>answer_text. Inr ''[]''),
      c_verify = (\<lambda>claims contents. Inr ''{}''),
      c_compose = (\<lambda>query verified docs. Inr ''The sky is blue.''),
      c_loads = json_loads\<rparr>"

definition failing_refiner :: collaborators where
  "failing_refiner = echo_collaborators\<lparr>c_reformulate := (\<lambda>query. Inl ''model unavailable'')\<rparr>"

definition blank_refiner :: collaborators where
  "blank_refiner = echo_collaborators\<lparr>c_reformulate := (\<lambda>query. Inr [])\<rparr>"

section \<open>Renderings of a JSON value\<close>

text \<open>
  The texts the round-trip property of the structured-output parsers is about. A text is
  a rendering of the value the decoder returns for it. \<open>array_text\<close> and \<open>object_text\<close>
  are the texts that start and end with the brackets of an array or an object and hold no
  backtick; \<open>fence_json\<close> and \<open>fence_plain\<close> wrap a text in a code fence; and
  \<open>with_trailing_commas\<close> inserts a comma immediately before every closing bracket.
\<close>

definition array_text :: "string \<Rightarrow> bool" where
  "array_text t = (t \<noteq> [] \<and> hd t = CHR ''['' \<and> last t = CHR '']'' \<and> CHR 0x60 \<notin> set t)"

definition object_text :: "string \<Rightarrow> bool" where
  "object_text t = (t \<noteq> [] \<and> hd t = CHR ''{'' \<and> last t = CHR ''}'' \<and> CHR 0x60 \<notin> set t)"

definition fence_json :: "string \<Rightarrow> string" where
  "fence_json t = ''```json'' @ [CHR 0x0A] @ t @ [CHR 0x0A] @ ''```''"

definition fence_plain :: "string \<Rightarrow> string" where
  "fence_plain t = ''```'' @ [CHR 0x0A] @ t @ [CHR 0x0A] @ ''```''"

definition wrappings :: "string \<Rightarrow> string list" where
  "wrappings t = [t, fence_json t, fence_plain t]"

definition insert_commas :: "(char \<Rightarrow> bool) \<Rightarrow> string \<Rightarrow> string" where
  "insert_commas closing t = concat (map (\<lambda>c. if closing c then [CHR '','', c] else [c]) t)"

definition with_trailing_commas :: "string \<Rightarrow> string" where
  "with_trailing_commas t = insert_commas (\<lambda>c. c = CHR '']'' \<or> c = CHR ''}'') t"

section \<open>Verified properties\<close>

section \<open>Claim extraction returns only long strings\<close>

lemma kept_claim_long: "kept_claim v = Some c \<Longrightarrow> 10 < length (strip c)"
  by (cases v) (auto split: if_splits)

lemma map_filter_kept_long:
  "c \<in> set (List.map_filter kept_claim xs) \<Longrightarrow> 10 < length (strip c)"
  by (auto simp: List.map_filter_def dest: kept_claim_long)

lemma no_content_claims_long: "c \<in> set no_content_claims \<Longrightarrow> 10 < length (strip c)"
  by (simp add: no_content_claims_def strip_def is_space_def)

lemma fixed_fallback_claims_long: "c \<in> set fixed_fallback_claims \<Longrightarrow> 10 < length (strip c)"
  by (auto simp: fixed_fallback_claims_def strip_def is_space_def)

text \<open>
  C10: whatever the answer text, the decoder and the outcome of the model call, every
  element of the list \<open>extract_claims\<close> returns is a string (the result type) whose
  stripped length exceeds 10. The proof follows the four paths: the blank-input sentinel,
  the fixed list after a failed call, and the final filter, which both the decoded value
  and the sentence-splitting fallback pass through.
\<close>

theorem extract_claims_long_strings:
  "\<forall>c \<in> set (extract_claims loads response answer_text). 10 < length (strip c)"
proof
  fix c
  assume c: "c \<in> set (extract_claims loads response answer_text)"
  show "10 < length (strip c)"
  proof (cases "answer_text = [] \<or> strip answer_text = []")
    case True
    with c have "c \<in> set no_content_claims"
      by (simp add: extract_claims_def)
    then show ?thesis by (rule no_content_claims_long)
  next
    case False
    show ?thesis
    proof (cases response)
      case (Inl e)
      with False c have "c \<in> set fixed_fallback_claims"
        by (simp add: extract_claims_def)
      then show ?thesis by (rule fixed_fallback_claims_long)
    next
      case (Inr response_text)
      with False c obtain xs where "c \<in> set (List.map_filter kept_claim xs)"
        by (auto simp: extract_claims_def Let_def)
      then show ?thesis by (rule map_filter_kept_long)
    qed
  qed
qed

theorem extract_claims_long_strings_witness:
  \<open>extract_claims json_loads (Inr ''["The sky is blue today", "short", 5]'') ''draft''
     = [''The sky is blue today'']
   \<and> 10 < length (strip ''The sky is blue today'')\<close>
proof -
  have e: \<open>extract_claims json_loads (Inr ''["The sky is blue today", "short", 5]'') ''draft''
     = [''The sky is blue today'']\<close>
    by code_simp
  from extract_claims_long_strings
    [of json_loads \<open>Inr ''["The sky is blue today", "short", 5]''\<close> "''draft''"]
  show ?thesis unfolding e by simp
qed

section \<open>Claim verification keeps one entry per claim\<close>


lemma keys_dict_set:
  "map fst (dict_set d k v) = (if k \<in> set (map fst d) then map fst d else map fst d @ [k])"
  by (induction d k v rule: dict_set.induct) auto

lemma set_keys_dict_set: "fst ` set (dict_set d k v) = insert k (fst ` set d)"
  using arg_cong [OF keys_dict_set [of d k v], of set] by (auto split: if_splits)

lemma distinct_keys_dict_set: "distinct (map fst d) \<Longrightarrow> distinct (map fst (dict_set d k v))"
  by (simp add: keys_dict_set)

lemma map_of_dict_set: "map_of (dict_set d k v) = (map_of d)(k \<mapsto> v)"
  by (induction d k v rule: dict_set.induct) (auto simp: fun_eq_iff)

lemma dict_get_dict_set: "dict_get (dict_set d k v) c = (if c = k then Some v else dict_get d c)"
  by (simp add: dict_get_def map_of_dict_set)

lemma keys_reconcile:
  "fst ` set (reconcile results acc i claims) = fst ` set acc \<union> set claims"
  by (induction claims arbitrary: acc i) (simp_all add: set_keys_dict_set)

lemma distinct_reconcile:
  "distinct (map fst acc) \<Longrightarrow> distinct (map fst (reconcile results acc i claims))"
  by (induction claims arbitrary: acc i) (auto simp: distinct_keys_dict_set)

lemma dict_get_reconcile_other:
  "c \<notin> set claims \<Longrightarrow> dict_get (reconcile results acc i claims) c = dict_get acc c"
  by (induction claims arbitrary: acc i) (auto simp: dict_get_dict_set)

lemma dict_get_reconcile_missing:
  assumes "c \<in> set claims"
    and "\<forall>j < length claims. claims ! j = c \<longrightarrow> find_result results (i + j) c = None"
  shows "dict_get (reconcile results acc i claims) c = Some missing_claim_record"
  using assms
proof (induction claims arbitrary: acc i)
  case Nil
  then show ?case by simp
next
  case (Cons x xs)
  show ?case
  proof (cases "c \<in> set xs")
    case True
    have "\<forall>j < length xs. xs ! j = c \<longrightarrow> find_result results (Suc i + j) c = None"
    proof (intro allI impI)
      fix j assume "j < length xs" "xs ! j = c"
      with Cons.prems(2) [rule_format, of "Suc j"] show "find_result results (Suc i + j) c = None"
        by simp
    qed
    with True show ?thesis by (simp add: Cons.IH)
  next
    case False
    with Cons.prems(1) have cx: "c = x" by simp
    from Cons.prems(2) [rule_format, of 0] cx have "find_result results i x = None" by simp
    with False cx show ?thesis
      by (simp add: dict_get_reconcile_other dict_get_dict_set)
  qed
qed

lemma keys_foldl_dict_set:
  "fst ` set (foldl (\<lambda>d claim. dict_set d claim v) acc claims) = fst ` set acc \<union> set claims"
  by (induction claims arbitrary: acc) (simp_all add: set_keys_dict_set)

lemma distinct_foldl_dict_set:
  "distinct (map fst acc) \<Longrightarrow> distinct (map fst (foldl (\<lambda>d claim. dict_set d claim v) acc claims))"
  by (induction claims arbitrary: acc) (auto simp: distinct_keys_dict_set)

lemma dict_get_foldl_dict_set:
  "dict_get (foldl (\<lambda>d claim. dict_set d claim v) acc claims) c
     = (if c \<in> set claims then Some v else dict_get acc c)"
  by (induction claims arbitrary: acc) (auto simp: dict_get_dict_set)

lemma not_supported_record_zero: "is_not_supported_zero (not_supported_record ev ex)"
  by (simp add: is_not_supported_zero_def not_supported_record_def dict_get_def)

lemma keys_fact_check_claims:
  "distinct (map fst (fact_check_claims loads response claims docs))
   \<and> set (map fst (fact_check_claims loads response claims docs)) = set claims"
  by (auto simp: fact_check_claims_def system_error_results_def keys_reconcile distinct_reconcile
      keys_foldl_dict_set distinct_foldl_dict_set split: sum.splits json.splits)


lemma find_result_None:
  "find_result results i c = None \<longleftrightarrow>
     (\<forall>result_key \<in> fst ` set results.
        \<not> contains c result_key \<and> \<not> contains (''Claim '' @ str_of_nat (i + 1)) result_key)"
  by (induction results i c rule: find_result.induct) auto

lemma find_result_find:
  "find_result results i c
     = map_option snd
         (find (\<lambda>kv. contains c (fst kv) \<or> contains (''Claim '' @ str_of_nat (i + 1)) (fst kv))
            results)"
  by (induction results i c rule: find_result.induct) auto

lemma dict_get_reconcile_nth:
  assumes "distinct claims" "j < length claims"
  shows "dict_get (reconcile results acc i claims) (claims ! j)
     = Some (case find_result results (i + j) (claims ! j) of
               Some result_value \<Rightarrow> result_value
             | None \<Rightarrow> missing_claim_record)"
  using assms
proof (induction claims arbitrary: acc i j)
  case Nil
  then show ?case by simp
next
  case (Cons x xs)
  show ?case
  proof (cases j)
    case 0
    with Cons.prems show ?thesis
      by (simp add: dict_get_reconcile_other dict_get_dict_set)
  next
    case (Suc j')
    with Cons.prems have "distinct xs" "j' < length xs" by simp_all
    from Cons.IH [OF this, of _ "Suc i"] Suc show ?thesis by simp
  qed
qed

text \<open>
  C1, as amended: for every list of extracted claims, every context and every outcome of
  the model call, the dictionary \<open>fact_check_claims\<close> returns has distinct keys and its
  keys are exactly the claim strings, so every claim has exactly one entry. When the call
  raises, every entry has status \<open>NOT_SUPPORTED\<close> and confidence 0. When no key of the
  model output contains the text of a claim, or the text \<open>Claim i+1\<close> for an index \<open>i\<close> at
  which the claim stands in the list, the claim's entry is the default \<open>NOT_SUPPORTED\<close>
  record with confidence 0. When the claims are pairwise distinct, the entry of the claim
  at index \<open>i\<close> is the value of the first key of the model output that contains the claim
  text or the text \<open>Claim i+1\<close>. The empty-context fallback of \<open>fact_checking_node\<close> has
  the same keys, each with the no-documents record.
\<close>

theorem verified_claims_one_entry_per_claim:
  "distinct (map fst (fact_check_claims loads response claims docs))
   \<and> set (map fst (fact_check_claims loads response claims docs)) = set claims
   \<and> (\<forall>e c. response = Inl e \<and> c \<in> set claims \<longrightarrow>
          (\<exists>v. dict_get (fact_check_claims loads response claims docs) c = Some v
               \<and> is_not_supported_zero v))
   \<and> (\<forall>t results c. response = Inr t
          \<and> fc_extract_json_from_text loads t = JObj results
          \<and> c \<in> set claims
          \<and> (\<forall>result_key \<in> fst ` set results.
                \<not> contains c result_key
                \<and> (\<forall>j < length claims. claims ! j = c \<longrightarrow>
                      \<not> contains (''Claim '' @ str_of_nat (j + 1)) result_key)) \<longrightarrow>
          dict_get (fact_check_claims loads response claims docs) c = Some missing_claim_record
          \<and> is_not_supported_zero missing_claim_record)
   \<and> distinct (map fst (fallback_claims claims))
   \<and> set (map fst (fallback_claims claims)) = set claims
   \<and> (\<forall>c \<in> set claims. dict_get (fallback_claims claims) c = Some no_documents_record
          \<and> is_not_supported_zero no_documents_record)
   \<and> (\<forall>t results j result_key v. response = Inr t
          \<and> fc_extract_json_from_text loads t = JObj results
          \<and> distinct claims \<and> j < length claims
          \<and> find (\<lambda>kv. contains (claims ! j) (fst kv)
                          \<or> contains (''Claim '' @ str_of_nat (j + 1)) (fst kv)) results
              = Some (result_key, v) \<longrightarrow>
          dict_get (fact_check_claims loads response claims docs) (claims ! j) = Some v)"
proof (intro conjI allI impI ballI)
  show "distinct (map fst (fact_check_claims loads response claims docs))"
    using keys_fact_check_claims by blast
  show "set (map fst (fact_check_claims loads response claims docs)) = set claims"
    using keys_fact_check_claims by blast
next
  fix e c
  assume "response = Inl e \<and> c \<in> set claims"
  then show "\<exists>v. dict_get (fact_check_claims loads response claims docs) c = Some v
      \<and> is_not_supported_zero v"
    by (simp add: fact_check_claims_def system_error_results_def dict_get_foldl_dict_set
        not_supported_record_zero)
next
  fix t results c
  assume a: "response = Inr t \<and> fc_extract_json_from_text loads t = JObj results
      \<and> c \<in> set claims
      \<and> (\<forall>result_key \<in> fst ` set results.
            \<not> contains c result_key
            \<and> (\<forall>j < length claims. claims ! j = c \<longrightarrow>
                  \<not> contains (''Claim '' @ str_of_nat (j + 1)) result_key))"
  then have "\<forall>j < length claims. claims ! j = c \<longrightarrow> find_result results (0 + j) c = None"
    by (simp add: find_result_None)
  with a have "dict_get (reconcile results [] 0 claims) c = Some missing_claim_record"
    by (intro dict_get_reconcile_missing) simp_all
  with a show "dict_get (fact_check_claims loads response claims docs) c = Some missing_claim_record"
    by (simp add: fact_check_claims_def)
  show "is_not_supported_zero missing_claim_record"
    by (simp add: missing_claim_record_def not_supported_record_zero)
next
  show "distinct (map fst (fallback_claims claims))"
    by (simp add: fallback_claims_def distinct_foldl_dict_set)
  show "set (map fst (fallback_claims claims)) = set claims"
    by (simp add: fallback_claims_def keys_foldl_dict_set)
next
  fix c assume "c \<in> set claims"
  then show "dict_get (fallback_claims claims) c = Some no_documents_record"
    by (simp add: fallback_claims_def dict_get_foldl_dict_set)
  show "is_not_supported_zero no_documents_record"
    by (simp add: no_documents_record_def not_supported_record_zero)
next
  fix t results j result_key v
  assume a: "response = Inr t \<and> fc_extract_json_from_text loads t = JObj results
      \<and> distinct claims \<and> j < length claims
      \<and> find (\<lambda>kv. contains (claims ! j) (fst kv)
                      \<or> contains (''Claim '' @ str_of_nat (j + 1)) (fst kv)) results
          = Some (result_key, v)"
  then have "find_result results (0 + j) (claims ! j) = Some v"
    by (simp add: find_result_find)
  with a have "dict_get (reconcile results [] 0 claims) (claims ! j) = Some v"
    using dict_get_reconcile_nth [of claims j results "[]" 0] by simp
  with a show "dict_get (fact_check_claims loads response claims docs) (claims ! j) = Some v"
    by (simp add: fact_check_claims_def)
qed

theorem verified_claims_one_entry_per_claim_witness:
  \<open>map fst (fact_check_claims json_loads
       (Inr ''{"The sky is blue": {"verification_status": "SUPPORTED", "confidence": 90}}'')
       [''The sky is blue'', ''Water is wet''] [''The sky is blue on clear days''])
     = [''The sky is blue'', ''Water is wet'']
   \<and> dict_get (fact_check_claims json_loads
       (Inr ''{"The sky is blue": {"verification_status": "SUPPORTED", "confidence": 90}}'')
       [''The sky is blue'', ''Water is wet''] [''The sky is blue on clear days''])
       ''Water is wet'' = Some missing_claim_record
   \<and> dict_get (fact_check_claims json_loads
       (Inr ''{"The sky is blue": {"verification_status": "SUPPORTED", "confidence": 90}}'')
       [''The sky is blue'', ''Water is wet''] [''The sky is blue on clear days''])
       ''The sky is blue''
     = Some (JObj [(''verification_status'', JStr ''SUPPORTED''), (''confidence'', JNum 90)])
   \<and> dict_get (fallback_claims [''The sky is blue'', ''Water is wet'']) ''Water is wet''
       = Some no_documents_record\<close>
proof -
  let ?t = \<open>''{"The sky is blue": {"verification_status": "SUPPORTED", "confidence": 90}}''\<close>
  let ?r = "[(''The sky is blue'',
      JObj [(''verification_status'', JStr ''SUPPORTED''), (''confidence'', JNum 90)])]"
  let ?cl = "[''The sky is blue'', ''Water is wet'']"
  have p: "fc_extract_json_from_text json_loads ?t = JObj ?r"
    by code_simp
  have c1: "\<not> contains ''Water is wet'' ''The sky is blue''"
    by code_simp
  have c2: "\<not> contains (''Claim '' @ str_of_nat (1 + 1)) ''The sky is blue''"
    by code_simp
  have q: "\<forall>result_key \<in> fst ` set ?r.
      \<not> contains ''Water is wet'' result_key
      \<and> (\<forall>j < length ?cl. ?cl ! j = ''Water is wet'' \<longrightarrow>
            \<not> contains (''Claim '' @ str_of_nat (j + 1)) result_key)"
  proof (intro ballI conjI allI impI)
    fix result_key assume k: "result_key \<in> fst ` set ?r"
    then have rk: "result_key = ''The sky is blue''" by simp
    show "\<not> contains ''Water is wet'' result_key"
      unfolding rk by (rule c1)
    fix j assume "j < length ?cl" "?cl ! j = ''Water is wet''"
    then have "j = 1" by (cases j) simp_all
    then show "\<not> contains (''Claim '' @ str_of_nat (j + 1)) result_key"
      unfolding rk using c2 by simp
  qed
  have k: "map fst (fact_check_claims json_loads (Inr ?t) ?cl [''The sky is blue on clear days'']) = ?cl"
    by code_simp
  have m: "''Water is wet'' \<in> set ?cl" by simp
  note t = verified_claims_one_entry_per_claim
    [of json_loads "Inr ?t" ?cl "[''The sky is blue on clear days'']"]
  from t [THEN conjunct2, THEN conjunct2, THEN conjunct2, THEN conjunct1, rule_format,
    of ?t ?r "''Water is wet''"] p q m
  have d: "dict_get (fact_check_claims json_loads (Inr ?t) ?cl [''The sky is blue on clear days''])
      ''Water is wet'' = Some missing_claim_record"
    by blast
  from t [THEN conjunct2, THEN conjunct2, THEN conjunct2, THEN conjunct2, THEN conjunct2,
    THEN conjunct2, THEN conjunct1, rule_format, of "''Water is wet''"] m
  have f: "dict_get (fallback_claims ?cl) ''Water is wet'' = Some no_documents_record"
    by blast
  let ?v = "JObj [(''verification_status'', JStr ''SUPPORTED''), (''confidence'', JNum 90)]"
  have g: "find (\<lambda>kv. contains (?cl ! 0) (fst kv)
                        \<or> contains (''Claim '' @ str_of_nat (0 + 1)) (fst kv)) ?r
      = Some (''The sky is blue'', ?v)"
    by code_simp
  have h: "distinct ?cl \<and> 0 < length ?cl" by simp
  from t [THEN conjunct2, THEN conjunct2, THEN conjunct2, THEN conjunct2, THEN conjunct2,
    THEN conjunct2, THEN conjunct2, rule_format, of ?t ?r 0 "''The sky is blue''" ?v] p g h
  have "dict_get (fact_check_claims json_loads (Inr ?t) ?cl [''The sky is blue on clear days''])
      (?cl ! 0) = Some ?v"
    by blast
  then have e: "dict_get (fact_check_claims json_loads (Inr ?t) ?cl [''The sky is blue on clear days''])
      ''The sky is blue'' = Some ?v"
    by simp
  from k d e f show ?thesis by blast
qed

text \<open>
  C1 as stated fails when the model output has no key equal to a claim and a key that
  contains it. For the one claim \<open>The sky is blue today\<close> and a model output keyed only by
  \<open>The sky is blue today and tomorrow\<close>, the output has no entry for the claim, and the
  claim's entry in the result is the value of the longer key, \<open>SUPPORTED\<close> with
  confidence 90, not the \<open>NOT_SUPPORTED\<close> record with confidence 0.
\<close>

theorem verified_claims_missing_claim_counterexample:
  \<open>fc_extract_json_from_text json_loads
       ''{"The sky is blue today and tomorrow": {"verification_status": "SUPPORTED", "confidence": 90}}''
     = JObj [(''The sky is blue today and tomorrow'',
              JObj [(''verification_status'', JStr ''SUPPORTED''), (''confidence'', JNum 90)])]
   \<and> dict_get [(''The sky is blue today and tomorrow'',
                JObj [(''verification_status'', JStr ''SUPPORTED''), (''confidence'', JNum 90)])]
        ''The sky is blue today'' = None
   \<and> dict_get (fact_check_claims json_loads
       (Inr ''{"The sky is blue today and tomorrow": {"verification_status": "SUPPORTED", "confidence": 90}}'')
       [''The sky is blue today''] [''The sky is blue on clear days''])
       ''The sky is blue today''
     = Some (JObj [(''verification_status'', JStr ''SUPPORTED''), (''confidence'', JNum 90)])
   \<and> \<not> is_not_supported_zero
         (JObj [(''verification_status'', JStr ''SUPPORTED''), (''confidence'', JNum 90)])\<close>
  by (intro conjI; code_simp)

section \<open>The confidence aggregators\<close>

lemma ilog2_bounds:
  assumes "0 < x"
  shows "2 powi (ilog2 x) \<le> x \<and> x < 2 powi (ilog2 x + 1)"
proof (cases "1 \<le> x")
  case True
  then have p: "0 < \<lfloor>x\<rfloor>" by (simp add: less_floor_iff) 
  from bitlen_bounds [OF p] have b: "2 ^ nat (bitlen \<lfloor>x\<rfloor> - 1) \<le> \<lfloor>x\<rfloor>" "\<lfloor>x\<rfloor> < 2 ^ nat (bitlen \<lfloor>x\<rfloor>)"
    by simp_all
  have ge1: "1 \<le> bitlen \<lfloor>x\<rfloor>" using p by (auto simp: bitlen_alt_def)
  have "(of_int (2 ^ nat (bitlen \<lfloor>x\<rfloor> - 1)) :: rat) \<le> x"
    using b(1) by (simp only: le_floor_iff [symmetric])
  then have l: "(2::rat) ^ nat (bitlen \<lfloor>x\<rfloor> - 1) \<le> x" by simp
  have "x < of_int (2 ^ nat (bitlen \<lfloor>x\<rfloor>))"
    using b(2) by (simp only: floor_less_iff [symmetric])
  then have u: "x < (2::rat) ^ nat (bitlen \<lfloor>x\<rfloor>)" by simp
  from True ge1 l u show ?thesis
    by (simp add: ilog2_def power_int_def)
next
  case False
  with assms have x: "0 < x" "x < 1" by simp_all
  define n where "n = nat \<lceil>1 / x\<rceil>"
  have inv: "1 < 1 / x" using x by simp
  then have c: "1 < \<lceil>1 / x\<rceil>" using x by (simp add: less_ceiling_iff)
  have n0: "0 < n" and nc: "int n = \<lceil>1 / x\<rceil>"
    unfolding n_def using c by linarith+
  define k where "k = ceillog2 n"
  have "n \<le> 2 ^ k" unfolding k_def by (rule le_two_power_ceillog2)
  then have "\<lceil>1 / x\<rceil> \<le> 2 ^ k" using nc by (metis of_nat_le_iff of_nat_numeral of_nat_power)
  then have "1 / x \<le> of_int (2 ^ k)" by (simp only: ceiling_le_iff)
  then have "1 / x \<le> 2 ^ k" by simp
  then have l: "1 / 2 ^ k \<le> x" using x(1) by (simp add: field_simps)
  have "2 ^ k < 2 * n" unfolding k_def using n0 by (rule two_power_ceillog2_gt)
  moreover have kpos: "0 < k"
  proof (rule ccontr)
    assume "\<not> 0 < k"
    then have "k = 0" by simp
    with \<open>n \<le> 2 ^ k\<close> have "n \<le> 1" by simp
    with c nc show False by linarith
  qed
  ultimately have "2 ^ (k - 1) < n"
    by (cases k) simp_all
  then have "2 ^ (k - 1) < \<lceil>1 / x\<rceil>" using nc by (metis of_nat_less_iff of_nat_numeral of_nat_power)
  then have "of_int (2 ^ (k - 1)) < 1 / x" by (simp only: less_ceiling_iff)
  then have "2 ^ (k - 1) < 1 / x" by simp
  then have u: "x < 1 / 2 ^ (k - 1)" using x(1) by (simp add: field_simps)
  have e: "ilog2 x = - int k" using False by (simp add: ilog2_def n_def k_def)
  have p1: "(2::rat) powi (- int k) = 1 / 2 ^ k"
    by (simp add: power_int_minus_divide)
  have "- int k + 1 = - int (k - 1)" using kpos by simp
  then have p2: "(2::rat) powi (- int k + 1) = 1 / 2 ^ (k - 1)"
    by (simp only: power_int_minus_divide power_int_of_nat)
  show ?thesis unfolding e p1 p2 using l u by simp
qed


lemma round_half_even_bounds:
  "of_int a \<le> y \<Longrightarrow> y \<le> of_int b \<Longrightarrow> a \<le> round_half_even y \<and> round_half_even y \<le> b"
  unfolding round_half_even_def Let_def
  by (auto simp: le_floor_iff floor_le_iff) linarith+

lemma round_half_even_of_int: "round_half_even (of_int k) = k"
  by (simp add: round_half_even_def)

lemma round_half_even_mono:
  assumes "a \<le> b"
  shows "round_half_even a \<le> round_half_even b"
proof (cases "\<lfloor>a\<rfloor> = \<lfloor>b\<rfloor>")
  case True
  with assms show ?thesis
    by (auto simp: round_half_even_def Let_def)
next
  case False
  with assms have "\<lfloor>a\<rfloor> + 1 \<le> \<lfloor>b\<rfloor>"
    using floor_mono [OF assms] by linarith
  moreover have "round_half_even a \<le> \<lfloor>a\<rfloor> + 1"
    by (auto simp: round_half_even_def Let_def)
  moreover have "\<lfloor>b\<rfloor> \<le> round_half_even b"
    by (auto simp: round_half_even_def Let_def)
  ultimately show ?thesis by linarith
qed

lemma ilog2_mono:
  assumes "0 < x" "x \<le> y"
  shows "ilog2 x \<le> ilog2 y"
proof (rule ccontr)
  assume "\<not> ilog2 x \<le> ilog2 y"
  then have "ilog2 y + 1 \<le> ilog2 x" by simp
  then have "(2::rat) powi (ilog2 y + 1) \<le> 2 powi (ilog2 x)"
    by (intro power_int_increasing) simp_all
  moreover have "y < 2 powi (ilog2 y + 1)" "2 powi (ilog2 x) \<le> x"
    using ilog2_bounds [of x] ilog2_bounds [of y] assms by simp_all
  ultimately show False using assms(2) by linarith
qed

lemma ulp_pos: "0 < ulp x"
  by (simp add: ulp_def)

lemma fl_pos_eq: "0 < x \<Longrightarrow> fl x = of_int (round_half_even (x / ulp x)) * ulp x"
  by (simp add: fl_def)

lemma fl_zero: "fl 0 = 0"
  by (simp add: fl_def)

lemma fl_nonneg:
  assumes "0 \<le> x"
  shows "0 \<le> fl x"
proof (cases "x = 0")
  case True
  then show ?thesis by (simp add: fl_zero)
next
  case False
  with assms have x: "0 < x" by simp
  have "of_int 0 \<le> x / ulp x" using x ulp_pos [of x] by simp
  then have "0 \<le> round_half_even (x / ulp x)"
    using round_half_even_mono [of "of_int 0" "x / ulp x"]
    by (simp only: round_half_even_of_int)
  then show ?thesis using ulp_pos [of x] by (simp add: fl_pos_eq [OF x])
qed

lemma fl_mono_pos:
  assumes "0 < x" "x \<le> y"
  shows "fl x \<le> fl y"
proof -
  from assms have y: "0 < y" by simp
  define ex where "ex = max (ilog2 x - 52) (- 1074)"
  define ey where "ey = max (ilog2 y - 52) (- 1074)"
  have ux: "ulp x = 2 powi ex" and uy: "ulp y = 2 powi ey"
    by (simp_all add: ulp_def ex_def ey_def)
  have le: "ex \<le> ey"
    using ilog2_mono [OF assms] by (simp add: ex_def ey_def)
  have px: "(0::rat) < 2 powi ex" and py: "(0::rat) < 2 powi ey" by simp_all
  show ?thesis
  proof (cases "ex = ey")
    case True
    have "x / 2 powi ey \<le> y / 2 powi ey"
      using assms(2) py by (simp add: divide_right_mono)
    then have "round_half_even (x / 2 powi ey) \<le> round_half_even (y / 2 powi ey)"
      by (rule round_half_even_mono)
    then have "(of_int (round_half_even (x / 2 powi ey)) :: rat) * 2 powi ey
        \<le> of_int (round_half_even (y / 2 powi ey)) * 2 powi ey"
      using py by (simp add: mult_right_mono)
    then show ?thesis
      by (simp add: fl_pos_eq [OF assms(1)] fl_pos_eq [OF y] ux uy True)
  next
    case False
    with le have lt: "ex + 1 \<le> ey" by simp
    then have eyv: "ey = ilog2 y - 52" by (simp add: ey_def ex_def)
    have exv: "ilog2 x - 52 \<le> ex" by (simp add: ex_def)
    \<comment> \<open>the larger number rounds to at least its binade's lower end\<close>
    have "(2::rat) powi (ey + 52) \<le> y"
      using ilog2_bounds [OF y] by (simp add: eyv)
    moreover have "(2::rat) powi (ey + 52) = 2 powi ey * 2 ^ 52"
      by (simp add: power_int_add)
    ultimately have "of_int (2 ^ 52) \<le> y / 2 powi ey"
      using py by (simp add: field_simps)
    then have "2 ^ 52 \<le> round_half_even (y / 2 powi ey)"
      using round_half_even_mono [of "of_int (2 ^ 52)" "y / 2 powi ey"]
      by (simp only: round_half_even_of_int)
    then have "(of_int (2 ^ 52) :: rat) \<le> of_int (round_half_even (y / 2 powi ey))"
      by (simp only: of_int_le_iff)
    then have "(of_int (2 ^ 52) :: rat) * 2 powi ey
        \<le> of_int (round_half_even (y / 2 powi ey)) * 2 powi ey"
      using py by (simp only: mult_right_mono less_imp_le)
    then have low: "(2::rat) powi (ey + 52) \<le> fl y"
      by (simp add: fl_pos_eq [OF y] uy power_int_add mult.commute)
    \<comment> \<open>the smaller number rounds to at most its binade's upper end\<close>
    have "x < 2 powi (ilog2 x + 1)"
      using ilog2_bounds [OF assms(1)] by simp
    moreover have "(2::rat) powi (ilog2 x + 1) \<le> 2 powi (ex + 53)"
      using exv by (intro power_int_increasing) simp_all
    moreover have "(2::rat) powi (ex + 53) = 2 powi ex * 2 ^ 53"
      by (simp add: power_int_add)
    ultimately have "x / 2 powi ex \<le> of_int (2 ^ 53)"
      using px by (simp add: field_simps)
    then have "round_half_even (x / 2 powi ex) \<le> 2 ^ 53"
      using round_half_even_mono [of "x / 2 powi ex" "of_int (2 ^ 53)"]
      by (simp only: round_half_even_of_int)
    then have "(of_int (round_half_even (x / 2 powi ex)) :: rat) \<le> of_int (2 ^ 53)"
      by (simp only: of_int_le_iff)
    then have "(of_int (round_half_even (x / 2 powi ex)) :: rat) * 2 powi ex
        \<le> of_int (2 ^ 53) * 2 powi ex"
      using px by (simp only: mult_right_mono less_imp_le)
    then have up: "fl x \<le> 2 powi (ex + 53)"
      by (simp add: fl_pos_eq [OF assms(1)] ux power_int_add mult.commute)
    have "(2::rat) powi (ex + 53) \<le> 2 powi (ey + 52)"
      using lt by (intro power_int_increasing) simp_all
    with low up show ?thesis by linarith
  qed
qed

lemma fl_mono:
  assumes "0 \<le> x" "x \<le> y"
  shows "fl x \<le> fl y"
proof (cases "x = 0")
  case True
  with assms fl_nonneg [of y] show ?thesis by (simp add: fl_zero)
next
  case False
  with assms show ?thesis by (intro fl_mono_pos) simp_all
qed

lemma fl_of_nat:
  assumes "n < 2 ^ 53"
  shows "fl (of_nat n) = of_nat n"
proof (cases "n = 0")
  case True
  then show ?thesis by (simp add: fl_zero)
next
  case False
  then have x: "(0::rat) < of_nat n" by simp
  define e where "e = max (ilog2 (of_nat n) - 52) (- 1074)"
  have "(2::rat) powi (ilog2 (of_nat n)) \<le> of_nat n"
    using ilog2_bounds [OF x] by simp
  also have "(of_nat n :: rat) < 2 ^ 53"
    using assms by (metis of_nat_less_iff of_nat_numeral of_nat_power)
  finally have "(2::rat) powi (ilog2 (of_nat n)) < 2 powi 53" by simp
  then have "ilog2 (of_nat n) < 53"
    by (rule power_int_le_imp_less_exp [rotated]) simp_all
  then have e0: "e \<le> 0" by (simp add: e_def)
  define k where "k = nat (- e)"
  have ek: "e = - int k" using e0 by (simp add: k_def)
  have u: "ulp (of_nat n) = 1 / 2 ^ k"
    by (simp add: ulp_def e_def [symmetric] ek power_int_minus_divide)
  have "of_nat n / ulp (of_nat n) = (of_int (int n * 2 ^ k) :: rat)"
    by (simp add: u)
  then have "round_half_even (of_nat n / ulp (of_nat n)) = int n * 2 ^ k"
    by (simp only: round_half_even_of_int)
  then show ?thesis
    by (simp add: fl_pos_eq [OF x]) (simp add: u)
qed

lemma fl_bounds:
  assumes "0 \<le> x" "x \<le> of_nat n" "n < 2 ^ 53"
  shows "0 \<le> fl x \<and> fl x \<le> of_nat n"
  using fl_nonneg [OF assms(1)] fl_mono [OF assms(1,2)] fl_of_nat [OF assms(3)] by simp

lemma round_half_even_close: "\<bar>of_int (round_half_even y) - y\<bar> \<le> 1 / 2"
proof -
  have a: "of_int \<lfloor>y\<rfloor> \<le> y" "y < of_int \<lfloor>y\<rfloor> + 1"
    by linarith+
  have lo: "\<bar>of_int \<lfloor>y\<rfloor> - y\<bar> \<le> 1 / 2" if "\<not> 1 / 2 < y - of_int \<lfloor>y\<rfloor>"
    using a that by linarith
  have hi: "\<bar>of_int (\<lfloor>y\<rfloor> + 1) - y\<bar> \<le> 1 / 2" if "\<not> y - of_int \<lfloor>y\<rfloor> < 1 / 2"
  proof -
    have "(of_int (\<lfloor>y\<rfloor> + 1) :: rat) = of_int \<lfloor>y\<rfloor> + 1" by simp
    with a that show ?thesis by linarith
  qed
  show ?thesis
  proof (cases "y - of_int \<lfloor>y\<rfloor> < 1 / 2")
    case True
    then have "round_half_even y = \<lfloor>y\<rfloor>" by (simp add: round_half_even_def Let_def)
    with lo True show ?thesis by simp
  next
    case False
    show ?thesis
    proof (cases "round_half_even y = \<lfloor>y\<rfloor>")
      case True
      with False have "\<not> 1 / 2 < y - of_int \<lfloor>y\<rfloor>"
        by (auto simp: round_half_even_def Let_def split: if_splits)
      from lo [OF this] True show ?thesis by simp
    next
      case r: False
      with False have "round_half_even y = \<lfloor>y\<rfloor> + 1"
        by (auto simp: round_half_even_def Let_def split: if_splits)
      with hi [OF False] show ?thesis by (simp only:)
    qed
  qed
qed

lemma nearest_hundredth_close: "\<bar>nearest_hundredth x - x\<bar> \<le> 1 / 200"
proof -
  have "\<bar>nearest_hundredth x - x\<bar> = \<bar>of_int (round_half_even (x * 100)) - x * 100\<bar> / 100"
    by (simp add: nearest_hundredth_def field_simps abs_mult [symmetric])
  also have "\<dots> \<le> (1 / 2) / 100"
    using round_half_even_close [of "x * 100"] by (simp only: divide_right_mono zero_le_numeral)
  finally show ?thesis by simp
qed

lemma nearest_hundredth_bounds:
  assumes "0 \<le> x" "x \<le> 100"
  shows "0 \<le> nearest_hundredth x \<and> nearest_hundredth x \<le> 100"
proof -
  have "of_int 0 \<le> x * 100" "x * 100 \<le> of_int 10000"
    using assms by simp_all
  then have "0 \<le> round_half_even (x * 100) \<and> round_half_even (x * 100) \<le> 10000"
    by (rule round_half_even_bounds)
  then have "(0::rat) \<le> of_int (round_half_even (x * 100))"
    and "(of_int (round_half_even (x * 100)) :: rat) \<le> of_int 10000"
    by (simp_all only: of_int_le_iff of_int_0_le_iff)
  then show ?thesis by (simp add: nearest_hundredth_def)
qed

lemma fl_bounds_100:
  assumes "0 \<le> x" "x \<le> 100"
  shows "0 \<le> fl x \<and> fl x \<le> 100"
  using fl_bounds [of x 100] assms by simp

lemma fl_bounds_1:
  assumes "0 \<le> x" "x \<le> 1"
  shows "0 \<le> fl x \<and> fl x \<le> 1"
  using fl_bounds [of x 1] assms by simp

lemma py_round2_bounds:
  assumes "0 \<le> x" "x \<le> 100"
  shows "0 \<le> py_round2 x \<and> py_round2 x \<le> 100"
  unfolding py_round2_def using nearest_hundredth_bounds [OF assms] by (intro fl_bounds_100) simp_all

lemma round_half_even_near:
  assumes "\<bar>y - of_int k\<bar> < 1 / 2"
  shows "round_half_even y = k"
proof (cases "of_int k \<le> y")
  case True
  with assms have "y < of_int k + 1" by linarith
  with True have f: "\<lfloor>y\<rfloor> = k" by linarith
  from assms True have "y - of_int k < 1 / 2" by linarith
  with f show ?thesis by (simp add: round_half_even_def Let_def)
next
  case False
  with assms have "of_int (k - 1) \<le> y" "y < of_int (k - 1) + 1" by simp_all
  then have f: "\<lfloor>y\<rfloor> = k - 1" by linarith
  from assms False have "1 / 2 < y - of_int (k - 1)" by simp
  with f show ?thesis by (simp add: round_half_even_def Let_def)
qed

lemma fl_error:
  assumes "0 < x"
  shows "\<bar>fl x - x\<bar> \<le> ulp x / 2"
proof -
  have u: "0 < ulp x" by (rule ulp_pos)
  have "fl x - x = (of_int (round_half_even (x / ulp x)) - x / ulp x) * ulp x"
    using u by (simp add: fl_pos_eq [OF assms] algebra_simps)
  then have "\<bar>fl x - x\<bar> = \<bar>of_int (round_half_even (x / ulp x)) - x / ulp x\<bar> * ulp x"
    using u by (simp add: abs_mult)
  also have "\<dots> \<le> (1 / 2) * ulp x"
    using round_half_even_close [of "x / ulp x"] u by (intro mult_right_mono) simp_all
  finally show ?thesis by simp
qed

lemma ilog2_100: "ilog2 100 = 6"
  by code_simp

lemma ulp_le_100:
  assumes "0 < x" "x \<le> 100"
  shows "ulp x \<le> 2 powi (- 46)"
proof -
  have "ilog2 x \<le> 6" using ilog2_mono [OF assms] by (simp add: ilog2_100)
  then have "max (ilog2 x - 52) (- 1074) \<le> - 46" by simp
  then show ?thesis unfolding ulp_def by (intro power_int_increasing) simp_all
qed

lemma py_round2_fixed:
  assumes "0 \<le> k" "k \<le> 10000"
  shows "py_round2 (fl (of_int k / 100)) = fl (of_int k / 100)"
proof (cases "k = 0")
  case True
  then show ?thesis
    by (simp add: py_round2_def nearest_hundredth_def fl_zero round_half_even_of_int [of 0, simplified])
next
  case False
  let ?x = "of_int k / 100 :: rat"
  from False assms have x: "0 < ?x" "?x \<le> 100" by simp_all
  have "\<bar>fl ?x - ?x\<bar> \<le> ulp ?x / 2" using x(1) by (rule fl_error)
  also have "\<dots> \<le> 2 powi (- 46) / 2" using ulp_le_100 [OF x] by simp
  finally have e: "\<bar>fl ?x - ?x\<bar> \<le> 2 powi (- 46) / 2" .
  have p: "(2::rat) powi (- 46) < 1 / 100" by (simp add: power_int_minus field_simps)
  have "fl ?x * 100 - of_int k = (fl ?x - ?x) * 100" by (simp add: algebra_simps)
  then have "\<bar>fl ?x * 100 - of_int k\<bar> = \<bar>fl ?x - ?x\<bar> * 100" by (simp only: abs_mult)
  also have "\<dots> < 1 / 2"
  proof -
    have aux: "a \<le> q / 2 \<Longrightarrow> q < 1 / 100 \<Longrightarrow> a * 100 < 1 / 2" for a q :: rat
      by linarith
    from e p show ?thesis by (rule aux)
  qed
  finally have "round_half_even (fl ?x * 100) = k" by (rule round_half_even_near)
  then show ?thesis by (simp add: py_round2_def nearest_hundredth_def)
qed

lemma py_round2_hundredth:
  assumes "0 \<le> m" "m \<le> 100"
  shows "\<exists>k::int. 0 \<le> k \<and> k \<le> 10000 \<and> py_round2 m = fl (of_int k / 100)"
proof -
  have "of_int 0 \<le> m * 100" "m * 100 \<le> of_int 10000" using assms by simp_all
  then have "0 \<le> round_half_even (m * 100) \<and> round_half_even (m * 100) \<le> 10000"
    by (rule round_half_even_bounds)
  moreover have "py_round2 m = fl (of_int (round_half_even (m * 100)) / 100)"
    by (simp add: py_round2_def nearest_hundredth_def)
  ultimately show ?thesis by blast
qed

lemma well_formed_verificationD:
  assumes "well_formed_verification v"
  obtains fields s c where "v = JObj fields"
    and "dict_get fields ''verification_status'' = Some (JStr s)" and "s \<in> set four_statuses"
    and "dict_get fields ''confidence'' = Some (JNum c)" and "0 \<le> c" and "c \<le> 100"
  using assms unfolding well_formed_verification_def
  by (auto split: json.splits option.splits)

lemma fc_weight_bounds: "0 \<le> fc_weight status \<and> fc_weight status \<le> 1"
  using fl_bounds_1 [of "6 / 10"] fl_bounds_1 [of "1 / 10"] by (simp add: fc_weight_def)

lemma weighted_bounds:
  fixes c w :: rat
  assumes "0 \<le> c" "c \<le> 100" "0 \<le> w" "w \<le> 1"
  shows "0 \<le> c * w \<and> c * w \<le> 100"
proof
  show "0 \<le> c * w" using assms by simp
  have "c * w \<le> c * 1" using assms by (intro mult_left_mono) simp_all
  with assms show "c * w \<le> 100" by simp
qed

lemma fl_weighted_bounds:
  fixes c w :: rat
  assumes "0 \<le> c" "c \<le> 100" "0 \<le> w" "w \<le> 1"
  shows "0 \<le> fl (c * w) \<and> fl (c * w) \<le> 100"
  using weighted_bounds [OF assms] by (intro fl_bounds_100) simp_all

lemma fl_sum_bounds:
  fixes t a :: rat
  assumes "0 \<le> t" "t \<le> 100 * of_nat n" "0 \<le> a" "a \<le> 100" "n < 2 ^ 46"
  shows "0 \<le> fl (t + a) \<and> fl (t + a) \<le> 100 * of_nat (n + 1)"
proof -
  have "100 * (n + 1) \<le> 100 * 2 ^ 46" using assms(5) by simp
  also have "\<dots> < (2::nat) ^ 53" by simp
  finally have r: "100 * (n + 1) < (2::nat) ^ 53" .
  have "t + a \<le> of_nat (100 * (n + 1))" using assms(2,4) by (simp add: algebra_simps)
  moreover have "0 \<le> t + a" using assms(1,3) by simp
  ultimately have "0 \<le> fl (t + a) \<and> fl (t + a) \<le> of_nat (100 * (n + 1))"
    using r by (intro fl_bounds) simp_all
  then show ?thesis by simp
qed

lemma fc_accumulate_well_formed:
  assumes "list_all well_formed_verification vs" "0 \<le> t" "t \<le> 100 * of_nat n"
    and "n + length vs \<le> 2 ^ 46"
  shows "\<exists>t'. fc_accumulate vs t n = Some (t', n + length vs)
           \<and> 0 \<le> t' \<and> t' \<le> 100 * of_nat (n + length vs)"
  using assms
proof (induction vs arbitrary: t n)
  case Nil
  then show ?case by simp
next
  case (Cons v vs)
  from Cons.prems(1) have wf: "well_formed_verification v" and rest: "list_all well_formed_verification vs"
    by simp_all
  from wf obtain fields s c where v: "v = JObj fields"
    and st: "dict_get fields ''verification_status'' = Some (JStr s)"
    and cf: "dict_get fields ''confidence'' = Some (JNum c)" and c: "0 \<le> c" "c \<le> 100"
    by (rule well_formed_verificationD)
  have fc: "0 \<le> fl c \<and> fl c \<le> 100" using c by (rule fl_bounds_100)
  let ?a = "fl (fl c * fc_weight (JStr s))"
  have a: "0 \<le> ?a \<and> ?a \<le> 100"
    using fc fc_weight_bounds [of "JStr s"] by (intro fl_weighted_bounds) simp_all
  have n: "n < 2 ^ 46" using Cons.prems(4) by simp
  let ?t = "fl (t + ?a)"
  have step: "fc_accumulate (v # vs) t n = fc_accumulate vs ?t (n + 1)"
    by (simp add: v st cf)
  have t: "0 \<le> ?t \<and> ?t \<le> 100 * of_nat (n + 1)"
    using Cons.prems(2,3) a n by (intro fl_sum_bounds) simp_all
  have "n + 1 + length vs \<le> 2 ^ 46" using Cons.prems(4) by simp
  with Cons.IH [OF rest, of ?t "n + 1"] t show ?case
    unfolding step by simp
qed

lemma fa_accumulate_well_formed:
  assumes "list_all well_formed_verification vs" "0 \<le> t" "t \<le> 100 * of_nat n"
    and "n + length vs \<le> 2 ^ 46"
  shows "\<exists>t'. fa_accumulate vs t n = Some (t', n + length vs)
           \<and> 0 \<le> t' \<and> t' \<le> 100 * of_nat (n + length vs)"
  using assms
proof (induction vs arbitrary: t n)
  case Nil
  then show ?case by simp
next
  case (Cons v vs)
  from Cons.prems(1) have wf: "well_formed_verification v" and rest: "list_all well_formed_verification vs"
    by simp_all
  from wf obtain fields s c where v: "v = JObj fields"
    and st: "dict_get fields ''verification_status'' = Some (JStr s)"
    and s: "s \<in> set four_statuses"
    and cf: "dict_get fields ''confidence'' = Some (JNum c)" and c: "0 \<le> c" "c \<le> 100"
    by (rule well_formed_verificationD)
  have fc: "0 \<le> fl c \<and> fl c \<le> 100" using c by (rule fl_bounds_100)
  have w: "0 \<le> fl (7 / 10) \<and> fl (7 / 10) \<le> 1" by (intro fl_bounds_1) simp_all
  have p: "0 \<le> fl (fl c * fl (7 / 10)) \<and> fl (fl c * fl (7 / 10)) \<le> 100"
    using fc w by (intro fl_weighted_bounds) simp_all
  have n: "n < 2 ^ 46" using Cons.prems(4) by simp
  define t1 where "t1 =
    (if s = ''SUPPORTED'' then fl (t + fl c)
     else if s = ''PARTIALLY_SUPPORTED'' then fl (t + fl (fl c * fl (7 / 10)))
     else t)"
  have step: "fa_accumulate (v # vs) t n = fa_accumulate vs t1 (n + 1)"
    using s by (simp add: v st cf t1_def four_statuses_def)
  have s1: "0 \<le> fl (t + fl c) \<and> fl (t + fl c) \<le> 100 * of_nat (n + 1)"
    using Cons.prems(2,3) fc n by (intro fl_sum_bounds) simp_all
  have s2: "0 \<le> fl (t + fl (fl c * fl (7 / 10)))
      \<and> fl (t + fl (fl c * fl (7 / 10))) \<le> 100 * of_nat (n + 1)"
    using Cons.prems(2,3) p n by (intro fl_sum_bounds) simp_all
  have s3: "0 \<le> t \<and> t \<le> 100 * of_nat (n + 1)"
    using Cons.prems(2,3) by (simp add: algebra_simps)
  have t1: "0 \<le> t1 \<and> t1 \<le> 100 * of_nat (n + 1)"
    using s1 s2 s3 by (simp add: t1_def)
  have "n + 1 + length vs \<le> 2 ^ 46" using Cons.prems(4) by simp
  with Cons.IH [OF rest, of t1 "n + 1"] t1 show ?case
    unfolding step by simp
qed

lemma fa_accumulate_total:
  assumes "list_all well_formed_verification vs"
  shows "\<exists>t'. fa_accumulate vs t n = Some (t', n + length vs)"
  using assms
proof (induction vs arbitrary: t n)
  case Nil
  then show ?case by simp
next
  case (Cons v vs)
  from Cons.prems have wf: "well_formed_verification v" and rest: "list_all well_formed_verification vs"
    by simp_all
  from wf obtain fields s c where v: "v = JObj fields"
    and st: "dict_get fields ''verification_status'' = Some (JStr s)"
    and s: "s \<in> set four_statuses"
    and cf: "dict_get fields ''confidence'' = Some (JNum c)"
    by (rule well_formed_verificationD)
  define t1 where "t1 =
    (if s = ''SUPPORTED'' then fl (t + fl c)
     else if s = ''PARTIALLY_SUPPORTED'' then fl (t + fl (fl c * fl (7 / 10)))
     else t)"
  have "fa_accumulate (v # vs) t n = fa_accumulate vs t1 (n + 1)"
    using s by (simp add: v st cf t1_def four_statuses_def)
  with Cons.IH [OF rest, of t1 "n + 1"] show ?case by simp
qed

lemma mean_bounds:
  fixes t :: rat
  assumes "0 \<le> t" "t \<le> 100 * of_nat n" "0 < n"
  shows "0 \<le> t / of_nat n \<and> t / of_nat n \<le> 100"
  using assms by (simp add: divide_le_eq mult.commute)

lemma fl_mean_bounds:
  fixes t :: rat
  assumes "0 \<le> t" "t \<le> 100 * of_nat n" "0 < n"
  shows "0 \<le> fl (t / of_nat n) \<and> fl (t / of_nat n) \<le> 100"
  using mean_bounds [OF assms] by (intro fl_bounds_100) simp_all

text \<open>
  C4: for every verified-claims mapping whose entries are well formed (one of the four
  statuses, a confidence from 0 to 100) and that has at most \<open>2 ^ 46\<close> entries, both
  aggregators return a value (they do not raise); the value lies between 0 and 100; it is
  rounded to two decimal places, that is, it is the float nearest to \<open>k / 100\<close> for a whole
  number \<open>k\<close> from 0 to 10000, and \<open>round(r, 2)\<close> gives it back; and both return 0 for the
  empty mapping. A call leaves the mapping as it received it, so a second call on the
  mapping after the first returns the same value. The bound on the number of entries
  keeps the running total below \<open>2 ^ 53\<close>, where every multiple of 100 is a float; no
  Python dictionary that fits in memory exceeds it.
\<close>

theorem aggregators_in_range:
  assumes "list_all well_formed_verification (map snd verified)"
    and "length verified \<le> 2 ^ 46"
  shows "(\<exists>r k. fc_calculate_overall_confidence verified = Some r
            \<and> 0 \<le> r \<and> r \<le> 100
            \<and> 0 \<le> k \<and> k \<le> 10000 \<and> r = fl (of_int k / 100) \<and> py_round2 r = r)
       \<and> (\<exists>r k. fa_calculate_overall_confidence verified = Some r
            \<and> 0 \<le> r \<and> r \<le> 100
            \<and> 0 \<le> k \<and> k \<le> 10000 \<and> r = fl (of_int k / 100) \<and> py_round2 r = r)
       \<and> fc_calculate_overall_confidence [] = Some 0
       \<and> fa_calculate_overall_confidence [] = Some 0
       \<and> fst (fc_calculate_overall_confidence_call verified) = verified
       \<and> snd (fc_calculate_overall_confidence_call
                (fst (fc_calculate_overall_confidence_call verified)))
           = snd (fc_calculate_overall_confidence_call verified)
       \<and> fst (fa_calculate_overall_confidence_call verified) = verified
       \<and> snd (fa_calculate_overall_confidence_call
                (fst (fa_calculate_overall_confidence_call verified)))
           = snd (fa_calculate_overall_confidence_call verified)"
proof -
  have calls: "fst (fc_calculate_overall_confidence_call verified) = verified"
    "snd (fc_calculate_overall_confidence_call (fst (fc_calculate_overall_confidence_call verified)))
       = snd (fc_calculate_overall_confidence_call verified)"
    "fst (fa_calculate_overall_confidence_call verified) = verified"
    "snd (fa_calculate_overall_confidence_call (fst (fa_calculate_overall_confidence_call verified)))
       = snd (fa_calculate_overall_confidence_call verified)"
    by (simp_all add: fc_calculate_overall_confidence_call_def
        fa_calculate_overall_confidence_call_def)
  have empty: "fc_calculate_overall_confidence [] = Some 0"
    "fa_calculate_overall_confidence [] = Some 0"
    by (simp_all add: fc_calculate_overall_confidence_def fa_calculate_overall_confidence_def)
  have rounded: "\<exists>k::int. 0 \<le> k \<and> k \<le> 10000 \<and> py_round2 m = fl (of_int k / 100)
      \<and> py_round2 (py_round2 m) = py_round2 m" if "0 \<le> m" "m \<le> 100" for m
  proof -
    from py_round2_hundredth [OF that] obtain k :: int where
      k: "0 \<le> k" "k \<le> 10000" "py_round2 m = fl (of_int k / 100)"
      by blast
    from py_round2_fixed [OF k(1,2)] k show ?thesis by auto
  qed
  have "(\<exists>r k. fc_calculate_overall_confidence verified = Some r
            \<and> 0 \<le> r \<and> r \<le> 100
            \<and> 0 \<le> k \<and> k \<le> 10000 \<and> r = fl (of_int k / 100) \<and> py_round2 r = r)
       \<and> (\<exists>r k. fa_calculate_overall_confidence verified = Some r
            \<and> 0 \<le> r \<and> r \<le> 100
            \<and> 0 \<le> k \<and> k \<le> 10000 \<and> r = fl (of_int k / 100) \<and> py_round2 r = r)"
  proof (cases "verified = []")
    case True
    have "(0::rat) = fl (of_int 0 / 100) \<and> py_round2 0 = 0"
      using py_round2_fixed [of 0] by (simp add: fl_zero)
    then have "\<exists>k::int. 0 \<le> k \<and> k \<le> 10000 \<and> (0::rat) = fl (of_int k / 100) \<and> py_round2 0 = 0"
      by (intro exI [of _ 0]) simp
    with True empty show ?thesis by simp
  next
    case False
    then have n: "0 < length verified" by simp
    have len: "0 + length (map snd verified) \<le> 2 ^ 46" using assms(2) by simp
    from fc_accumulate_well_formed [OF assms(1) _ _ len, of 0]
    obtain t where t: "fc_accumulate (map snd verified) 0 0 = Some (t, length verified)"
      "0 \<le> t" "t \<le> 100 * of_nat (length verified)"
      by auto
    from fa_accumulate_well_formed [OF assms(1) _ _ len, of 0]
    obtain u where u: "fa_accumulate (map snd verified) 0 0 = Some (u, length verified)"
      "0 \<le> u" "u \<le> 100 * of_nat (length verified)"
      by auto
    let ?m = "fl (t / of_nat (length verified))"
    let ?w = "fl (u / of_nat (length verified))"
    have m: "0 \<le> ?m \<and> ?m \<le> 100" using t(2,3) n by (rule fl_mean_bounds)
    have w: "0 \<le> ?w \<and> ?w \<le> 100" using u(2,3) n by (rule fl_mean_bounds)
    have x: "0 \<le> py_round2 ?m \<and> py_round2 ?m \<le> 100" using m by (intro py_round2_bounds) simp_all
    have y: "0 \<le> py_round2 ?w \<and> py_round2 ?w \<le> 100" using w by (intro py_round2_bounds) simp_all
    have fc: "fc_calculate_overall_confidence verified = Some (py_round2 ?m)"
      using False n by (simp add: fc_calculate_overall_confidence_def t(1))
    have fa: "fa_calculate_overall_confidence verified = Some (py_round2 ?w)"
      using False n y by (simp add: fa_calculate_overall_confidence_def u(1))
    from rounded [of ?m] m obtain k :: int where
      k: "0 \<le> k" "k \<le> 10000" "py_round2 ?m = fl (of_int k / 100)"
        "py_round2 (py_round2 ?m) = py_round2 ?m"
      by blast
    from rounded [of ?w] w obtain j :: int where
      j: "0 \<le> j" "j \<le> 10000" "py_round2 ?w = fl (of_int j / 100)"
        "py_round2 (py_round2 ?w) = py_round2 ?w"
      by blast
    have "\<exists>r k. fc_calculate_overall_confidence verified = Some r
            \<and> 0 \<le> r \<and> r \<le> 100
            \<and> 0 \<le> k \<and> k \<le> 10000 \<and> r = fl (of_int k / 100) \<and> py_round2 r = r"
      using fc x k by blast
    moreover have "\<exists>r k. fa_calculate_overall_confidence verified = Some r
            \<and> 0 \<le> r \<and> r \<le> 100
            \<and> 0 \<le> k \<and> k \<le> 10000 \<and> r = fl (of_int k / 100) \<and> py_round2 r = r"
      using fa y j by blast
    ultimately show ?thesis by blast
  qed
  with empty calls show ?thesis by blast
qed

theorem aggregators_in_range_witness:
  "fc_calculate_overall_confidence
     [(''The sky is blue'', JObj [(''verification_status'', JStr ''NOT_SUPPORTED''), (''confidence'', JNum 1)]),
      (''Water is dry'', JObj [(''verification_status'', JStr ''CONTRADICTED''), (''confidence'', JNum 80)]),
      (''Fire is cold'', JObj [(''verification_status'', JStr ''CONTRADICTED''), (''confidence'', JNum 70)]),
      (''Ice is hot'', JObj [(''verification_status'', JStr ''CONTRADICTED''), (''confidence'', JNum 60)])]
     = Some (fl (3 / 100))
   \<and> fa_calculate_overall_confidence
     [(''The sky is blue'', JObj [(''verification_status'', JStr ''PARTIALLY_SUPPORTED''), (''confidence'', JNum 1)]),
      (''Water is dry'', JObj [(''verification_status'', JStr ''CONTRADICTED''), (''confidence'', JNum 80)]),
      (''Fire is cold'', JObj [(''verification_status'', JStr ''CONTRADICTED''), (''confidence'', JNum 70)]),
      (''Ice is hot'', JObj [(''verification_status'', JStr ''CONTRADICTED''), (''confidence'', JNum 60)])]
     = Some (fl (17 / 100))
   \<and> (0::rat) \<le> fl (3 / 100) \<and> fl (3 / 100) \<le> 100 \<and> py_round2 (fl (3 / 100)) = fl (3 / 100)
   \<and> (0::rat) \<le> fl (17 / 100) \<and> fl (17 / 100) \<le> 100 \<and> py_round2 (fl (17 / 100)) = fl (17 / 100)"
proof -
  let ?m = "[(''The sky is blue'', JObj [(''verification_status'', JStr ''NOT_SUPPORTED''), (''confidence'', JNum 1)]),
      (''Water is dry'', JObj [(''verification_status'', JStr ''CONTRADICTED''), (''confidence'', JNum 80)]),
      (''Fire is cold'', JObj [(''verification_status'', JStr ''CONTRADICTED''), (''confidence'', JNum 70)]),
      (''Ice is hot'', JObj [(''verification_status'', JStr ''CONTRADICTED''), (''confidence'', JNum 60)])]"
  let ?n = "[(''The sky is blue'', JObj [(''verification_status'', JStr ''PARTIALLY_SUPPORTED''), (''confidence'', JNum 1)]),
      (''Water is dry'', JObj [(''verification_status'', JStr ''CONTRADICTED''), (''confidence'', JNum 80)]),
      (''Fire is cold'', JObj [(''verification_status'', JStr ''CONTRADICTED''), (''confidence'', JNum 70)]),
      (''Ice is hot'', JObj [(''verification_status'', JStr ''CONTRADICTED''), (''confidence'', JNum 60)])]"
  have wf: "list_all well_formed_verification (map snd ?m)"
    by (simp add: well_formed_verification_def dict_get_def four_statuses_def)
  have wg: "list_all well_formed_verification (map snd ?n)"
    by (simp add: well_formed_verification_def dict_get_def four_statuses_def)
  have len: "length ?m \<le> 2 ^ 46" "length ?n \<le> 2 ^ 46" by simp_all
  have fc: "fc_calculate_overall_confidence ?m = Some (fl (3 / 100))"
    by code_simp
  have fa: "fa_calculate_overall_confidence ?n = Some (fl (17 / 100))"
    by code_simp
  from aggregators_in_range [OF wf len(1), THEN conjunct1]
  have 1: "(0::rat) \<le> fl (3 / 100) \<and> fl (3 / 100) \<le> 100 \<and> py_round2 (fl (3 / 100)) = fl (3 / 100)"
    unfolding fc by auto
  from aggregators_in_range [OF wg len(2), THEN conjunct2, THEN conjunct1]
  have 2: "(0::rat) \<le> fl (17 / 100) \<and> fl (17 / 100) \<le> 100 \<and> py_round2 (fl (17 / 100)) = fl (17 / 100)"
    unfolding fa by auto
  from fc fa 1 2 show ?thesis by (simp only: simp_thms)
qed

text \<open>
  C8: the two aggregators differ on well-formed mappings. One \<open>PARTIALLY_SUPPORTED\<close> claim
  of confidence 50 gives 30 in the fact-checker module (weight 0.6) and 35 in the
  final-answer module (multiplier 0.7); one \<open>NOT_SUPPORTED\<close> claim of confidence 50 gives 5
  in the fact-checker module (weight 0.1) and 0 in the final-answer module, where it adds
  nothing to the sum and still counts in the denominator.
\<close>

theorem aggregators_diverge:
  "well_formed_verification
     (JObj [(''verification_status'', JStr ''PARTIALLY_SUPPORTED''), (''confidence'', JNum 50)])
   \<and> fc_calculate_overall_confidence
       [(''The sky is blue'',
         JObj [(''verification_status'', JStr ''PARTIALLY_SUPPORTED''), (''confidence'', JNum 50)])]
     = Some 30
   \<and> fa_calculate_overall_confidence
       [(''The sky is blue'',
         JObj [(''verification_status'', JStr ''PARTIALLY_SUPPORTED''), (''confidence'', JNum 50)])]
     = Some 35
   \<and> well_formed_verification
     (JObj [(''verification_status'', JStr ''NOT_SUPPORTED''), (''confidence'', JNum 50)])
   \<and> fc_calculate_overall_confidence
       [(''The sky is blue'',
         JObj [(''verification_status'', JStr ''NOT_SUPPORTED''), (''confidence'', JNum 50)])]
     = Some 5
   \<and> fa_calculate_overall_confidence
       [(''The sky is blue'',
         JObj [(''verification_status'', JStr ''NOT_SUPPORTED''), (''confidence'', JNum 50)])]
     = Some 0"
  by (intro conjI; code_simp)

section \<open>The claim breakdown of the final answer\<close>




lemma sort_claims_total:
  "sort_claims verified ls = Some ls' \<Longrightarrow>
     list_total ls' = list_total ls + length (filter (\<lambda>(k, v). counted_status v) verified)"
proof (induction verified ls arbitrary: ls' rule: sort_claims.induct)
  case (1 ls)
  then show ?case by simp
next
  case (2 claim_key verification rest ls)
  from "2.prems" obtain status where
    st: "entry_get verification ''verification_status'' (JStr ''UNKNOWN'') = Some status"
    by (auto split: option.splits)
  show ?case
    using "2.prems" "2.IH" [OF st, of ls'] st
    by (auto simp: list_total_def counted_status_def four_statuses_def split: if_splits)
qed

lemma sort_claims_well_formed:
  "list_all well_formed_verification (map snd verified) \<Longrightarrow> \<exists>ls'. sort_claims verified ls = Some ls'"
proof (induction verified ls rule: sort_claims.induct)
  case (1 ls)
  then show ?case by simp
next
  case (2 claim_key verification rest ls)
  from "2.prems" have "well_formed_verification verification" by simp
  then obtain fields where "verification = JObj fields"
    by (auto simp: well_formed_verification_def split: json.splits)
  with 2 show ?case by simp
qed

lemma well_formed_counted:
  assumes "well_formed_verification v"
  shows "counted_status v"
proof -
  from assms obtain fields s where "v = JObj fields"
    "dict_get fields ''verification_status'' = Some (JStr s)" "s \<in> set four_statuses"
    by (rule well_formed_verificationD)
  then show ?thesis by (simp add: counted_status_def)
qed

lemma filter_counted_well_formed:
  "list_all well_formed_verification (map snd verified) \<Longrightarrow>
     filter (\<lambda>(k, v). counted_status v) verified = verified"
  by (induction verified) (auto simp: well_formed_counted)


lemma fa_calculate_well_formed:
  assumes "list_all well_formed_verification (map snd verified)"
  shows "\<exists>r. fa_calculate_overall_confidence verified = Some r"
proof -
  from fa_accumulate_total [OF assms, of 0 0]
  obtain u where "fa_accumulate (map snd verified) 0 0 = Some (u, length verified)"
    by auto
  then show ?thesis by (simp add: fa_calculate_overall_confidence_def)
qed

lemma generate_final_answer_total:
  assumes "generate_final_answer query verified docs response = Some a"
  shows "breakdown_total a = Some (length (filter (\<lambda>(k, v). counted_status v) verified))"
proof -
  from assms obtain ls r where ls: "sort_claims verified no_claims = Some ls"
    and a: "claim_breakdown a =
        Some \<lparr>supported = length (supported_claims ls),
              partially_supported = length (partially_supported_claims ls),
              not_supported = length (not_supported_claims ls),
              contradicted = length (contradicted_claims ls)\<rparr>"
    by (auto simp: generate_final_answer_def split: option.splits)
  from sort_claims_total [OF ls]
  have "list_total ls = length (filter (\<lambda>(k, v). counted_status v) verified)"
    by (simp add: list_total_def no_claims_def)
  with a show ?thesis by (simp add: breakdown_total_def list_total_def)
qed

lemma generate_final_answer_well_formed:
  assumes "list_all well_formed_verification (map snd verified)"
  shows "\<exists>a. generate_final_answer query verified docs response = Some a
           \<and> breakdown_total a = Some (length verified)"
proof -
  from sort_claims_well_formed [OF assms] obtain ls where "sort_claims verified no_claims = Some ls"
    by blast
  moreover from fa_calculate_well_formed [OF assms] obtain r
    where "fa_calculate_overall_confidence verified = Some r"
    by blast
  ultimately obtain a where a: "generate_final_answer query verified docs response = Some a"
    by (simp add: generate_final_answer_def)
  from generate_final_answer_total [OF a] filter_counted_well_formed [OF assms] a
  show ?thesis by simp
qed

lemma length_fact_check_claims:
  assumes "distinct claims"
  shows "length (fact_check_claims loads r claims ctx) = length claims"
proof -
  let ?keys = "map fst (fact_check_claims loads r claims ctx)"
  have "distinct ?keys" and "set ?keys = set claims"
    using keys_fact_check_claims [of loads r claims ctx] by blast+
  then have "length ?keys = card (set claims)"
    using distinct_card [of ?keys] by simp
  with assms show ?thesis by (simp add: distinct_card)
qed

text \<open>
  C3, as amended: whenever \<open>generate_final_answer\<close> returns, the record has a
  \<open>claim_breakdown\<close> whose four counts sum to the number of entries of \<open>verified_claims\<close>
  whose status is one of the four; when every entry is well formed it does return, and the
  sum is the number of entries; and when moreover the mapping is what \<open>fact_check_claims\<close>
  returned for pairwise distinct extracted claims, the sum is \<open>len(extracted_claims)\<close>.
  An entry with another status is counted nowhere, and the record \<open>error_node\<close> stores has
  no \<open>claim_breakdown\<close>.
\<close>

theorem claim_breakdown_counts:
  "(\<forall>a. generate_final_answer query verified docs response = Some a \<longrightarrow>
        breakdown_total a = Some (length (filter (\<lambda>(k, v). counted_status v) verified)))
   \<and> (list_all well_formed_verification (map snd verified) \<longrightarrow>
        (\<exists>a. generate_final_answer query verified docs response = Some a
             \<and> breakdown_total a = Some (length verified)))
   \<and> (distinct claims
        \<and> list_all well_formed_verification (map snd (fact_check_claims loads r claims ctx)) \<longrightarrow>
        (\<exists>a. generate_final_answer query (fact_check_claims loads r claims ctx) docs response = Some a
             \<and> breakdown_total a = Some (length claims)))"
proof (intro conjI allI impI)
  fix a assume "generate_final_answer query verified docs response = Some a"
  then show "breakdown_total a = Some (length (filter (\<lambda>(k, v). counted_status v) verified))"
    by (rule generate_final_answer_total)
next
  assume "list_all well_formed_verification (map snd verified)"
  then show "\<exists>a. generate_final_answer query verified docs response = Some a
      \<and> breakdown_total a = Some (length verified)"
    by (rule generate_final_answer_well_formed)
next
  assume a: "distinct claims
      \<and> list_all well_formed_verification (map snd (fact_check_claims loads r claims ctx))"
  then have "length (fact_check_claims loads r claims ctx) = length claims"
    by (simp add: length_fact_check_claims)
  with generate_final_answer_well_formed [of "fact_check_claims loads r claims ctx" query docs response] a
  show "\<exists>a. generate_final_answer query (fact_check_claims loads r claims ctx) docs response = Some a
      \<and> breakdown_total a = Some (length claims)"
    by simp
qed

theorem claim_breakdown_counts_witness:
  \<open>map_option breakdown_total
     (generate_final_answer ''Is the sky blue?''
        (fact_check_claims json_loads
           (Inr ''{"The sky is blue": {"verification_status": "SUPPORTED", "confidence": 90}, "Water is dry": {"verification_status": "CONTRADICTED", "confidence": 80}}'')
           [''The sky is blue'', ''Water is dry''] [''The sky is blue on clear days''])
        [\<lparr>page_content = ''The sky is blue on clear days'', metadata = [(''source'', ''sky.txt'')]\<rparr>]
        (Inr ''The sky is blue.''))
   = Some (Some 2)\<close>
proof -
  let ?t = \<open>''{"The sky is blue": {"verification_status": "SUPPORTED", "confidence": 90}, "Water is dry": {"verification_status": "CONTRADICTED", "confidence": 80}}''\<close>
  let ?cl = "[''The sky is blue'', ''Water is dry'']"
  let ?vc = "fact_check_claims json_loads (Inr ?t) ?cl [''The sky is blue on clear days'']"
  have vc: "?vc =
      [(''The sky is blue'', JObj [(''verification_status'', JStr ''SUPPORTED''), (''confidence'', JNum 90)]),
       (''Water is dry'', JObj [(''verification_status'', JStr ''CONTRADICTED''), (''confidence'', JNum 80)])]"
    by code_simp
  have wf: "list_all well_formed_verification (map snd ?vc)"
    unfolding vc by (simp add: well_formed_verification_def dict_get_def four_statuses_def)
  have d: "distinct ?cl" by simp
  from claim_breakdown_counts
    [of "''Is the sky blue?''" ?vc
        "[\<lparr>page_content = ''The sky is blue on clear days'', metadata = [(''source'', ''sky.txt'')]\<rparr>]"
        "Inr ''The sky is blue.''" ?cl json_loads "Inr ?t" "[''The sky is blue on clear days'']"]
    wf d
  show ?thesis by auto
qed

text \<open>
  C3 as stated fails: one extracted claim whose verification came back with the status
  \<open>UNVERIFIABLE\<close> gives four counts that sum to 0, not 1; and the final answer of
  \<open>error_node\<close> has no \<open>claim_breakdown\<close> at all.
\<close>

theorem claim_breakdown_counterexample:
  \<open>map_option breakdown_total
     (generate_final_answer ''Is the sky blue?''
        (fact_check_claims json_loads
           (Inr ''{"The sky is blue today": {"verification_status": "UNVERIFIABLE", "confidence": 40}}'')
           [''The sky is blue today''] [''The sky is blue on clear days''])
        [\<lparr>page_content = ''The sky is blue on clear days'', metadata = [(''source'', ''sky.txt'')]\<rparr>]
        (Inr ''The sky may be blue.''))
   = Some (Some 0)
   \<and> length [''The sky is blue today''] = 1
   \<and> map_option claim_breakdown
       (final_answer (error_node
          \<lparr>original_query = ''Is the sky blue?'', refined_query = Some [],
           retrieved_docs = [], reranked_docs = [], draft_answer = [],
           extracted_claims = [], verified_claims = [], final_answer = None,
           error = Some ''Query understanding failed: model unavailable''\<rparr>))
     = Some None\<close>
  by (intro conjI; code_simp)

section \<open>The Rerank stage\<close>



lemma sort_key_map: "sort_key f (map g xs) = map g (sort_key (\<lambda>x. f (g x)) xs)"
proof (induction xs)
  case Nil
  show ?case by simp
next
  case (Cons x xs)
  have ins: "insort_key f (g x) (map g ys) = map g (insort_key (\<lambda>x. f (g x)) x ys)" for ys
    by (induction ys) simp_all
  from Cons show ?case by (simp add: ins)
qed

lemma sorted_desc_map: "sorted_desc f (map g xs) = map g (sorted_desc (\<lambda>x. f (g x)) xs)"
  by (simp add: sorted_desc_def sort_key_map rev_map)

lemma sorted_desc_stable:
  "filter (\<lambda>y. f y = k) (sorted_desc f xs) = filter (\<lambda>y. f y = k) xs"
  by (simp add: sorted_desc_def rev_filter [symmetric] sort_key_stable)

lemma sorted_desc_nonincreasing: "sorted (rev (map f (sorted_desc f xs)))"
  by (simp add: sorted_desc_def rev_map)

lemma take_nonincreasing:
  assumes "sorted (rev (map f xs))"
  shows "sorted (rev (map f (take n xs)))"
proof -
  have "rev (map f (take n xs)) = drop (length xs - n) (rev (map f xs))"
    by (simp add: rev_take take_map rev_map drop_map)
  with assms show ?thesis by (simp add: sorted_wrt_drop)
qed

lemma length_sorted_desc: "length (sorted_desc f xs) = length xs"
  by (simp add: sorted_desc_def)

lemma set_sorted_desc: "set (sorted_desc f xs) = set xs"
  by (simp add: sorted_desc_def)


lemma float_rank_le:
  "a \<noteq> NaN \<Longrightarrow> b \<noteq> NaN \<Longrightarrow> float_rank a \<le> float_rank b \<longleftrightarrow> float_le a b"
  by (cases a; cases b) simp_all

lemma float_rank_eq: "a \<noteq> NaN \<Longrightarrow> b \<noteq> NaN \<Longrightarrow> float_rank a = float_rank b \<longleftrightarrow> a = b"
  by (cases a; cases b) simp_all

lemma nonincreasing_float_le:
  assumes "sorted (rev (map (\<lambda>p. float_rank (snd p)) ps))" "NaN \<notin> snd ` set ps"
  shows "sorted_wrt (\<lambda>a b. float_le b a) (map snd ps)"
proof -
  from assms(1) have "sorted_wrt (\<lambda>p q. float_rank (snd q) \<le> float_rank (snd p)) ps"
    by (simp add: rev_map [symmetric] sorted_wrt_rev sorted_wrt_map)
  then have "sorted_wrt (\<lambda>p q. float_le (snd q) (snd p)) ps"
  proof (rule sorted_wrt_mono_rel [rotated])
    fix p q assume "p \<in> set ps" "q \<in> set ps" "float_rank (snd q) \<le> float_rank (snd p)"
    with assms(2) show "float_le (snd q) (snd p)"
      using float_rank_le [of "snd q" "snd p"] by (metis imageI)
  qed
  then show ?thesis by (simp add: sorted_wrt_map)
qed

lemma filter_score_stable:
  assumes "NaN \<notin> snd ` set ps"
  shows "filter (\<lambda>p. snd p = k) (sorted_desc (\<lambda>p. float_rank (snd p)) ps) = filter (\<lambda>p. snd p = k) ps"
proof (cases "k = NaN")
  case True
  with assms have "\<forall>p \<in> set ps. snd p \<noteq> k" by (metis imageI)
  then have "filter (\<lambda>p. snd p = k) ps = []"
    and "filter (\<lambda>p. snd p = k) (sorted_desc (\<lambda>p. float_rank (snd p)) ps) = []"
    by (simp_all add: filter_empty_conv set_sorted_desc)
  then show ?thesis by simp
next
  case False
  have e: "filter (\<lambda>p. snd p = k) xs = filter (\<lambda>p. float_rank (snd p) = float_rank k) xs"
    if "set xs = set ps" for xs
  proof (rule filter_cong [OF refl])
    fix p assume "p \<in> set xs"
    with that assms have "snd p \<noteq> NaN" by (metis imageI)
    with False show "(snd p = k) = (float_rank (snd p) = float_rank k)"
      by (simp add: float_rank_eq)
  qed
  show ?thesis
    by (simp add: e [OF set_sorted_desc] e [OF refl] sorted_desc_stable)
qed

lemma assign_scores_zip:
  "length scores = length docs \<Longrightarrow>
     assign_scores (convert_docs_to_reranker_format docs) scores = Some (map scored_doc (zip docs scores))"
proof (induction docs arbitrary: scores)
  case Nil
  then show ?case by (simp add: convert_docs_to_reranker_format_def)
next
  case (Cons d docs)
  then obtain x xs where s: "scores = x # xs" and l: "length xs = length docs"
    by (cases scores) auto
  from Cons.IH [OF l] show ?case
    by (simp add: s convert_docs_to_reranker_format_def scored_doc_def)
qed

lemma assign_scores_length: "assign_scores docs scores = Some scored \<Longrightarrow> length scored = length docs"
  by (induction docs scores arbitrary: scored rule: assign_scores.induct) auto

lemma rerank_length:
  assumes "rerank predict nan_sorted query docs top_k = Inr ranked"
    and "\<forall>xs. length (nan_sorted xs) = length xs"
  shows "length ranked \<le> min top_k (length docs)"
proof (cases "docs = []")
  case True
  with assms show ?thesis by (simp add: rerank_def)
next
  case False
  with assms(1) obtain scores scored where "assign_scores docs scores = Some scored"
    and "ranked = take top_k (sorted_desc score_key scored) \<or> ranked = take top_k (nan_sorted scored)"
    by (auto simp: rerank_def split: sum.splits option.splits if_splits)
  then show ?thesis
    using assign_scores_length [of docs scores scored] assms(2)
    by (auto simp: length_sorted_desc)
qed

lemma length_original_of: "length (original_of docs r) \<le> 1"
  by (simp add: original_of_def split: option.splits)

lemma length_concat_original_of: "length (concat (map (original_of docs) ranked)) \<le> length ranked"
proof (induction ranked)
  case Nil
  show ?case by simp
next
  case (Cons r ranked)
  with length_original_of [of docs r] show ?case by simp
qed

lemma find_distinct:
  "distinct (map f xs) \<Longrightarrow> x \<in> set xs \<Longrightarrow> find (\<lambda>y. f y = f x) xs = Some x"
  by (induction xs) (auto simp: image_iff)

lemma original_of_scored_doc:
  assumes "distinct (map page_content docs)" "fst p \<in> set docs"
  shows "original_of docs (scored_doc p) = [fst p]"
  using find_distinct [OF assms] by (simp add: original_of_def scored_doc_def)

lemma concat_original_of_scored:
  assumes "distinct (map page_content docs)" "\<forall>p \<in> set ps. fst p \<in> set docs"
  shows "concat (map (original_of docs) (map scored_doc ps)) = map fst ps"
  using assms(2) by (induction ps) (simp_all add: original_of_scored_doc [OF assms(1)])

lemma rerank_scored:
  assumes "docs \<noteq> []" "length scores = length docs" "NaN \<notin> set scores"
    and "predict (map (\<lambda>d. (query, content d)) (convert_docs_to_reranker_format docs)) = Inr scores"
  shows "rerank predict nan_sorted query (convert_docs_to_reranker_format docs) top_k
     = Inr (map scored_doc (take top_k (sorted_desc (\<lambda>p. float_rank (snd p)) (zip docs scores))))"
proof -
  have ne: "convert_docs_to_reranker_format docs \<noteq> []"
    using assms(1) by (simp add: convert_docs_to_reranker_format_def)
  have no: "\<not> list_ex (\<lambda>d. score d = None) (map scored_doc (zip docs scores))"
    by (simp add: list_ex_iff scored_doc_def)
  have "\<forall>p \<in> set (zip docs scores). snd p \<noteq> NaN"
    using assms(3) by (metis prod.collapse set_zip_rightD)
  then have nn: "\<not> list_ex (\<lambda>d. score d = Some NaN) (map scored_doc (zip docs scores))"
    by (simp add: list_ex_iff scored_doc_def)
  have key: "(\<lambda>p. score_key (scored_doc p)) = (\<lambda>p. float_rank (snd p))"
    by (simp add: fun_eq_iff score_key_def scored_doc_def)
  have "sorted_desc score_key (map scored_doc (zip docs scores))
      = map scored_doc (sorted_desc (\<lambda>p. float_rank (snd p)) (zip docs scores))"
    by (simp add: sorted_desc_map key)
  then show ?thesis
    using ne no nn assms(4) assign_scores_zip [OF assms(2)]
    by (simp add: rerank_def take_map)
qed

text \<open>
  C5, as amended. When \<open>retrieved_docs\<close> is empty the Rerank stage returns the state with
  \<open>reranked_docs = []\<close> whatever the scorer is, so the scorer has no part in the result. In
  every case the stage either leaves \<open>reranked_docs\<close> as it was (it failed and set \<open>error\<close>)
  or stores at most \<open>min(3, len(retrieved_docs))\<close> documents, \<open>sorted\<close> returning a list as
  long as the one it received. When the retrieved documents have pairwise distinct
  contents and the scorer returns one score per document, none of them \<open>NaN\<close>, the stage
  stores the first three documents of the retrieved list sorted by non-increasing score
  (every stored document's score is \<open><=\<close> that of each document stored before it), and the
  sort is stable: the documents of any one score keep their retrieval order.
\<close>

theorem rerank_stage_sorted_stable:
  "(retrieved_docs s = [] \<longrightarrow> reranker_node predict nan_sorted s = s\<lparr>reranked_docs := []\<rparr>)
   \<and> ((\<forall>xs. length (nan_sorted xs) = length xs) \<longrightarrow>
        reranked_docs (reranker_node predict nan_sorted s) = reranked_docs s
        \<or> length (reranked_docs (reranker_node predict nan_sorted s))
            \<le> min 3 (length (retrieved_docs s)))
   \<and> (retrieved_docs s \<noteq> [] \<and> predict (scorer_input s) = Inr scores
        \<and> length scores = length (retrieved_docs s) \<and> NaN \<notin> set scores
        \<and> distinct (map page_content (retrieved_docs s)) \<longrightarrow>
        reranker_node predict nan_sorted s
          = s\<lparr>reranked_docs :=
                map fst (take 3 (sorted_desc (\<lambda>p. float_rank (snd p)) (zip (retrieved_docs s) scores)))\<rparr>
        \<and> sorted_wrt (\<lambda>a b. float_le b a)
            (map snd (take 3 (sorted_desc (\<lambda>p. float_rank (snd p)) (zip (retrieved_docs s) scores))))
        \<and> (\<forall>k. filter (\<lambda>p. snd p = k)
                 (sorted_desc (\<lambda>p. float_rank (snd p)) (zip (retrieved_docs s) scores))
               = filter (\<lambda>p. snd p = k) (zip (retrieved_docs s) scores)))"
proof (intro conjI impI allI)
  assume "retrieved_docs s = []"
  then show "reranker_node predict nan_sorted s = s\<lparr>reranked_docs := []\<rparr>"
    by (simp add: reranker_node_def)
next
  assume len: "\<forall>xs. length (nan_sorted xs) = length xs"
  show "reranked_docs (reranker_node predict nan_sorted s) = reranked_docs s
      \<or> length (reranked_docs (reranker_node predict nan_sorted s)) \<le> min 3 (length (retrieved_docs s))"
  proof (cases "retrieved_docs s = []")
    case True
    then show ?thesis by (simp add: reranker_node_def)
  next
    case False
    show ?thesis
    proof (cases "rerank predict nan_sorted (stage_query s)
        (convert_docs_to_reranker_format (retrieved_docs s)) 3")
      case (Inl e)
      with False show ?thesis by (simp add: reranker_node_def)
    next
      case (Inr ranked)
      from rerank_length [OF Inr len]
      have "length ranked \<le> min 3 (length (retrieved_docs s))"
        by (simp add: convert_docs_to_reranker_format_def)
      with length_concat_original_of [of "retrieved_docs s" ranked] False Inr
      show ?thesis by (simp add: reranker_node_def)
    qed
  qed
next
  let ?docs = "retrieved_docs s"
  let ?pairs = "zip ?docs scores"
  let ?key = "\<lambda>p :: document \<times> pyfloat. float_rank (snd p)"
  assume a: "?docs \<noteq> [] \<and> predict (scorer_input s) = Inr scores
      \<and> length scores = length ?docs \<and> NaN \<notin> set scores \<and> distinct (map page_content ?docs)"
  have inp: "map (\<lambda>d. (stage_query s, content d)) (convert_docs_to_reranker_format ?docs)
      = scorer_input s"
    by (simp add: scorer_input_def convert_docs_to_reranker_format_def comp_def)
  from a have r: "rerank predict nan_sorted (stage_query s) (convert_docs_to_reranker_format ?docs) 3
      = Inr (map scored_doc (take 3 (sorted_desc ?key ?pairs)))"
    by (intro rerank_scored) (simp_all add: inp)
  have sub: "set (take 3 (sorted_desc ?key ?pairs)) \<subseteq> set ?pairs"
    using set_take_subset [of 3 "sorted_desc ?key ?pairs"] by (simp add: set_sorted_desc)
  have "\<forall>p \<in> set (take 3 (sorted_desc ?key ?pairs)). fst p \<in> set ?docs"
  proof
    fix p assume "p \<in> set (take 3 (sorted_desc ?key ?pairs))"
    with sub have "p \<in> set ?pairs" by blast
    then show "fst p \<in> set ?docs"
      by (metis prod.collapse set_zip_leftD)
  qed
  with a have "concat (map (original_of ?docs) (map scored_doc (take 3 (sorted_desc ?key ?pairs))))
      = map fst (take 3 (sorted_desc ?key ?pairs))"
    by (intro concat_original_of_scored) simp_all
  with a r show "reranker_node predict nan_sorted s
      = s\<lparr>reranked_docs := map fst (take 3 (sorted_desc ?key ?pairs))\<rparr>"
    by (simp add: reranker_node_def)
  have nan: "NaN \<notin> snd ` set ?pairs"
  proof
    assume "NaN \<in> snd ` set ?pairs"
    then obtain p where "p \<in> set ?pairs" "snd p = NaN" by auto
    then have "NaN \<in> set scores" by (metis prod.collapse set_zip_rightD)
    with a show False by simp
  qed
  with sub have nan3: "NaN \<notin> snd ` set (take 3 (sorted_desc ?key ?pairs))" by blast
  have "sorted (rev (map ?key (take 3 (sorted_desc ?key ?pairs))))"
    by (intro take_nonincreasing sorted_desc_nonincreasing)
  then show "sorted_wrt (\<lambda>a b. float_le b a) (map snd (take 3 (sorted_desc ?key ?pairs)))"
    using nan3 by (rule nonincreasing_float_le)
  show "filter (\<lambda>p. snd p = k) (sorted_desc ?key ?pairs) = filter (\<lambda>p. snd p = k) ?pairs" for k
    using nan by (rule filter_score_stable)
qed

theorem rerank_stage_sorted_stable_witness:
  "reranked_docs (reranker_node (\<lambda>pairs. Inr [Finite 1, Finite 3, Finite 3, Finite 2]) (\<lambda>docs. docs)
     \<lparr>original_query = ''sky'', refined_query = Some ''What colour is the sky?'',
      retrieved_docs =
        [\<lparr>page_content = ''alpha'', metadata = [(''source'', ''a.txt'')]\<rparr>,
         \<lparr>page_content = ''beta'', metadata = [(''source'', ''b.txt'')]\<rparr>,
         \<lparr>page_content = ''gamma'', metadata = [(''source'', ''c.txt'')]\<rparr>,
         \<lparr>page_content = ''delta'', metadata = [(''source'', ''d.txt'')]\<rparr>],
      reranked_docs = [], draft_answer = [], extracted_claims = [], verified_claims = [],
      final_answer = None, error = None\<rparr>)
   = [\<lparr>page_content = ''beta'', metadata = [(''source'', ''b.txt'')]\<rparr>,
      \<lparr>page_content = ''gamma'', metadata = [(''source'', ''c.txt'')]\<rparr>,
      \<lparr>page_content = ''delta'', metadata = [(''source'', ''d.txt'')]\<rparr>]
   \<and> length (reranked_docs (reranker_node (\<lambda>pairs. Inr [Finite 1, NaN, Finite 3, Finite 2]) (\<lambda>docs. docs)
     \<lparr>original_query = ''sky'', refined_query = Some ''What colour is the sky?'',
      retrieved_docs =
        [\<lparr>page_content = ''alpha'', metadata = [(''source'', ''a.txt'')]\<rparr>,
         \<lparr>page_content = ''beta'', metadata = [(''source'', ''b.txt'')]\<rparr>,
         \<lparr>page_content = ''gamma'', metadata = [(''source'', ''c.txt'')]\<rparr>,
         \<lparr>page_content = ''delta'', metadata = [(''source'', ''d.txt'')]\<rparr>],
      reranked_docs = [], draft_answer = [], extracted_claims = [], verified_claims = [],
      final_answer = None, error = None\<rparr>)) \<le> 3"
proof -
  let ?docs = "[\<lparr>page_content = ''alpha'', metadata = [(''source'', ''a.txt'')]\<rparr>,
         \<lparr>page_content = ''beta'', metadata = [(''source'', ''b.txt'')]\<rparr>,
         \<lparr>page_content = ''gamma'', metadata = [(''source'', ''c.txt'')]\<rparr>,
         \<lparr>page_content = ''delta'', metadata = [(''source'', ''d.txt'')]\<rparr>]"
  let ?s = "\<lparr>original_query = ''sky'', refined_query = Some ''What colour is the sky?'',
      retrieved_docs = ?docs,
      reranked_docs = [], draft_answer = [], extracted_claims = [], verified_claims = [],
      final_answer = None, error = None\<rparr>"
  let ?sc = "[Finite 1, Finite 3, Finite 3, Finite 2]"
  let ?p = "\<lambda>pairs :: (string \<times> string) list. (Inr ?sc :: string + pyfloat list)"
  let ?n = "\<lambda>docs :: ranked_doc list. docs"
  have h: "retrieved_docs ?s \<noteq> [] \<and> ?p (scorer_input ?s) = Inr ?sc
      \<and> length ?sc = length (retrieved_docs ?s) \<and> NaN \<notin> set ?sc
      \<and> distinct (map page_content (retrieved_docs ?s))"
    by simp
  have e: "map fst (take 3 (sorted_desc (\<lambda>p. float_rank (snd p)) (zip ?docs ?sc)))
      = [\<lparr>page_content = ''beta'', metadata = [(''source'', ''b.txt'')]\<rparr>,
         \<lparr>page_content = ''gamma'', metadata = [(''source'', ''c.txt'')]\<rparr>,
         \<lparr>page_content = ''delta'', metadata = [(''source'', ''d.txt'')]\<rparr>]"
    by code_simp
  note t = rerank_stage_sorted_stable [of ?s ?p ?n ?sc]
  from t [THEN conjunct2, THEN conjunct2, THEN mp, OF h, THEN conjunct1]
  have sorted_part: "reranked_docs (reranker_node ?p ?n ?s)
      = [\<lparr>page_content = ''beta'', metadata = [(''source'', ''b.txt'')]\<rparr>,
         \<lparr>page_content = ''gamma'', metadata = [(''source'', ''c.txt'')]\<rparr>,
         \<lparr>page_content = ''delta'', metadata = [(''source'', ''d.txt'')]\<rparr>]"
    using e by simp
  let ?q = "\<lambda>pairs :: (string \<times> string) list.
      (Inr [Finite 1, NaN, Finite 3, Finite 2] :: string + pyfloat list)"
  have l: "\<forall>xs :: ranked_doc list. length (?n xs) = length xs" by simp
  have c: "reranked_docs (reranker_node ?q ?n ?s) \<noteq> reranked_docs ?s"
    by code_simp
  note u = rerank_stage_sorted_stable [of ?s ?q ?n ?sc]
  from u [THEN conjunct2, THEN conjunct1, THEN mp, OF l] c
  have "length (reranked_docs (reranker_node ?q ?n ?s)) \<le> min 3 (length (retrieved_docs ?s))"
    by blast
  then have size_part: "length (reranked_docs (reranker_node ?q ?n ?s)) \<le> 3"
    by simp
  from sorted_part size_part show ?thesis by blast
qed

text \<open>
  C5 as stated fails when two retrieved documents have the same content. With the scores
  1, 3, 5 for three documents of which the first and the third share their text, the stage
  stores the first document twice around the second: the scores assigned to the stored
  documents read 1, 3, 1, which is not non-increasing, and the best-scored document is
  absent.
\<close>

theorem rerank_stage_counterexample:
  "reranked_docs (reranker_node (\<lambda>pairs. Inr [Finite 1, Finite 3, Finite 5]) (\<lambda>docs. docs)
     \<lparr>original_query = ''sky'', refined_query = Some ''What colour is the sky?'',
      retrieved_docs =
        [\<lparr>page_content = ''same text'', metadata = [(''source'', ''a.txt'')]\<rparr>,
         \<lparr>page_content = ''other text'', metadata = [(''source'', ''b.txt'')]\<rparr>,
         \<lparr>page_content = ''same text'', metadata = [(''source'', ''c.txt'')]\<rparr>],
      reranked_docs = [], draft_answer = [], extracted_claims = [], verified_claims = [],
      final_answer = None, error = None\<rparr>)
   = [\<lparr>page_content = ''same text'', metadata = [(''source'', ''a.txt'')]\<rparr>,
      \<lparr>page_content = ''other text'', metadata = [(''source'', ''b.txt'')]\<rparr>,
      \<lparr>page_content = ''same text'', metadata = [(''source'', ''a.txt'')]\<rparr>]
   \<and> map (map_of (zip
        [\<lparr>page_content = ''same text'', metadata = [(''source'', ''a.txt'')]\<rparr>,
         \<lparr>page_content = ''other text'', metadata = [(''source'', ''b.txt'')]\<rparr>,
         \<lparr>page_content = ''same text'', metadata = [(''source'', ''c.txt'')]\<rparr>]
        [Finite 1, Finite 3, Finite 5]))
       [\<lparr>page_content = ''same text'', metadata = [(''source'', ''a.txt'')]\<rparr>,
        \<lparr>page_content = ''other text'', metadata = [(''source'', ''b.txt'')]\<rparr>,
        \<lparr>page_content = ''same text'', metadata = [(''source'', ''a.txt'')]\<rparr>]
     = [Some (Finite 1), Some (Finite 3), Some (Finite 1)]
   \<and> \<not> sorted_wrt (\<lambda>a b. float_le b a) [Finite 1, Finite 3, Finite 1]"
  by (intro conjI; code_simp)

text \<open>
  A \<open>NaN\<close> score is a second input on which the order fails. For the scores 1, \<open>NaN\<close>, 3
  every comparison \<open>sorted\<close> makes with \<open>NaN\<close> is false, Python's sort finds the list in
  order and returns the documents as they came; the stage stores them in retrieval order,
  with the scores 1, \<open>NaN\<close>, 3.
\<close>

lemma rerank_stage_nan_scores:
  "reranked_docs (reranker_node (\<lambda>pairs. Inr [Finite 1, NaN, Finite 3]) (\<lambda>docs. docs)
     \<lparr>original_query = ''sky'', refined_query = Some ''What colour is the sky?'',
      retrieved_docs =
        [\<lparr>page_content = ''alpha'', metadata = [(''source'', ''a.txt'')]\<rparr>,
         \<lparr>page_content = ''beta'', metadata = [(''source'', ''b.txt'')]\<rparr>,
         \<lparr>page_content = ''gamma'', metadata = [(''source'', ''c.txt'')]\<rparr>],
      reranked_docs = [], draft_answer = [], extracted_claims = [], verified_claims = [],
      final_answer = None, error = None\<rparr>)
   = [\<lparr>page_content = ''alpha'', metadata = [(''source'', ''a.txt'')]\<rparr>,
      \<lparr>page_content = ''beta'', metadata = [(''source'', ''b.txt'')]\<rparr>,
      \<lparr>page_content = ''gamma'', metadata = [(''source'', ''c.txt'')]\<rparr>]
   \<and> \<not> sorted_wrt (\<lambda>a b. float_le b a) [Finite 1, NaN, Finite 3]"
  by (intro conjI; code_simp)

section \<open>The pipeline on its failure paths\<close>


text \<open>
  C2 does not hold of the graph as it is built. \<open>build_research_graph\<close> keeps the plain
  edge from each stage to the next beside the conditional edge that was meant to route to
  the error handler. When the query refinement raises, \<open>error\<close> is set, and the next step
  schedules both \<open>retrieval\<close> (by the plain edge) and \<open>error_handler\<close> (by the conditional
  edge). Retrieve therefore executes after the error, and since both nodes return every
  key of the state the step is refused: \<open>run_research_pipeline\<close> answers with its
  \<open>Critical system failure\<close> record, not with the record of the error handler.
\<close>

theorem query_refine_failure_runs_retrieval:
  "successors Query_understanding (query_understanding_node failing_refiner (initial_state ''sky''))
     = [Retrieval, Error_handler]
   \<and> fst (invoke failing_refiner (initial_state ''sky''))
     = [Query_understanding, Retrieval, Error_handler]
   \<and> run_research_pipeline failing_refiner ''sky''
     = System_failure
         \<lparr>final_answer_text = ''System Error: Can receive only one value per step'',
          confidence_score = 0, verified_sources = [],
          limitations = ''Critical system failure'', claim_breakdown = None\<rparr>
         ''Can receive only one value per step''"
  by (intro conjI; code_simp)

text \<open>
  C6 does not hold when the refinement returns the empty text. \<open>run_research_pipeline\<close>
  starts with \<open>refined_query = ""\<close>, so the key is always present and the default of
  \<open>state.get("refined_query", state["original_query"])\<close> is never used: Retrieve searches
  with the empty text, not with the original query. The search used here returns a
  document whose content is the query it received.
\<close>

theorem blank_refined_query_is_searched:
  "original_query (query_understanding_node blank_refiner (initial_state ''sky'')) = ''sky''
   \<and> refined_query (query_understanding_node blank_refiner (initial_state ''sky'')) = Some []
   \<and> stage_query (query_understanding_node blank_refiner (initial_state ''sky'')) = []
   \<and> map page_content
       (retrieved_docs (retrieval_node blank_refiner
          (query_understanding_node blank_refiner (initial_state ''sky''))))
     = [[]]
   \<and> (case run_research_pipeline blank_refiner ''sky'' of
         Completed result \<Rightarrow> map page_content (retrieved_docs result)
       | System_failure a e \<Rightarrow> [e])
     = [[]]"
  by (intro conjI; code_simp)

text \<open>
  C9 does not hold of the Draft stage. With no context document \<open>reasoning_node\<close>
  assigns \<open>draft_answer\<close> into the dictionary it received and returns that same
  dictionary; its other branches, like the other stages, return \<open>{**state, ...}\<close>.
\<close>

theorem draft_stage_assigns_into_received_state:
  "draft_answer (initial_state ''sky'') = []
   \<and> fst (reasoning_node echo_collaborators (initial_state ''sky''))
     = (initial_state ''sky'')\<lparr>draft_answer := ''No relevant documents found to answer the query.''\<rparr>
   \<and> snd (reasoning_node echo_collaborators (initial_state ''sky''))
     = fst (reasoning_node echo_collaborators (initial_state ''sky''))"
  by (intro conjI; code_simp)


lemma refine_failure_successors:
  assumes "c_reformulate c query = Inl e"
  shows "successors Query_understanding (query_understanding_node c (initial_state query))
     = [Retrieval, Error_handler]"
  using assms
  by (simp add: successors_def edges_def conditional_edges_def List.map_filter_def
      query_understanding_node_def initial_state_def error_set_def)

lemma refine_failure_executes_retrieval:
  assumes "c_reformulate c query = Inl e"
  shows "fst (invoke c (initial_state query)) = [Query_understanding, Retrieval, Error_handler]"
    and "snd (invoke c (initial_state query)) = Inl ''Can receive only one value per step''"
proof -
  have r: "run_node c Query_understanding (initial_state query)
      = query_understanding_node c (initial_state query)"
    by (simp add: run_node_def)
  show "fst (invoke c (initial_state query)) = [Query_understanding, Retrieval, Error_handler]"
    by (simp add: invoke_def eval_nat_numeral r refine_failure_successors [OF assms])
  show "snd (invoke c (initial_state query)) = Inl ''Can receive only one value per step''"
    by (simp add: invoke_def eval_nat_numeral r refine_failure_successors [OF assms])
qed

lemma blank_refinement_searches_empty_query:
  assumes "c_reformulate c query = Inr []"
  shows "retrieval_node c (query_understanding_node c (initial_state query))
     = (initial_state query)\<lparr>retrieved_docs := run_retriever c [] 5\<rparr>"
  using assms
  by (simp add: retrieval_node_def query_understanding_node_def stage_query_def initial_state_def)

lemma reasoning_node_without_documents:
  assumes "reranked_docs state = []" "retrieved_docs state = []"
  shows "fst (reasoning_node c state) = state\<lparr>draft_answer := no_documents_answer\<rparr>"
  using assms by (simp add: reasoning_node_def)

lemma reasoning_node_with_documents:
  assumes "reranked_docs state \<noteq> [] \<or> retrieved_docs state \<noteq> []"
  shows "fst (reasoning_node c state) = state"
  using assms by (auto simp: reasoning_node_def Let_def split: sum.splits)


section \<open>The round trip of the structured-output parsers\<close>


lemma dropWhile_tight: "t \<noteq> [] \<Longrightarrow> \<not> P (hd t) \<Longrightarrow> dropWhile P (t @ r) = t @ r"
  by (cases t) simp_all

lemma strip_tight:
  assumes "t \<noteq> []" "\<not> is_space (hd t)" "\<not> is_space (last t)"
  shows "strip t = t"
proof -
  have "dropWhile is_space t = t"
    using dropWhile_tight [of t is_space "[]"] assms by simp
  moreover have "dropWhile is_space (rev t) = rev t"
    using dropWhile_tight [of "rev t" is_space "[]"] assms by (simp add: hd_rev)
  ultimately show ?thesis by (simp add: strip_def)
qed

lemma strip_tight_newline:
  assumes "t \<noteq> []" "\<not> is_space (hd t)" "\<not> is_space (last t)"
  shows "strip (t @ [CHR 0x0A]) = t"
proof -
  have "dropWhile is_space (t @ [CHR 0x0A]) = t @ [CHR 0x0A]"
    using dropWhile_tight [of t is_space "[CHR 0x0A]"] assms by simp
  moreover have "dropWhile is_space (rev t) = rev t"
    using dropWhile_tight [of "rev t" is_space "[]"] assms by (simp add: hd_rev)
  ultimately show ?thesis by (simp add: strip_def is_space_def)
qed

lemma re_sub_fence_no_backtick:
  assumes "CHR 0x60 \<notin> set t" "lit \<noteq> []" "hd lit = CHR 0x60"
  shows "re_sub_fence lit (t @ rest) = t @ re_sub_fence lit rest"
  using assms(1)
proof (induction t)
  case Nil
  show ?case by simp
next
  case (Cons c cs)
  then have "c \<noteq> hd lit" using assms(3) by auto
  then have "\<not> prefix lit (c # cs @ rest)"
    using assms(2) by (cases lit) auto
  with Cons show ?case by simp
qed

lemma re_sub_fence_no_backtick_all:
  assumes "CHR 0x60 \<notin> set t" "lit \<noteq> []" "hd lit = CHR 0x60"
  shows "re_sub_fence lit t = t"
  using re_sub_fence_no_backtick [OF assms, of "[]"] by simp


lemma remove_code_fences_wrappings:
  assumes "t \<noteq> []" "\<not> is_space (hd t)" "\<not> is_space (last t)" "CHR 0x60 \<notin> set t"
    and "w \<in> set (wrappings t)"
  shows "remove_code_fences w = t"
proof -
  have nl: "is_space (CHR 0x0A)" by (simp add: is_space_def)
  have dw: "dropWhile is_space (CHR 0x0A # t @ r) = t @ r" for r
    using dropWhile_tight [of t is_space r] assms(1,2) nl by simp
  have j: "re_sub_fence ''```json'' (t @ r) = t @ re_sub_fence ''```json'' r" for r
    using assms(4) by (intro re_sub_fence_no_backtick) simp_all
  have p: "re_sub_fence ''```'' (t @ r) = t @ re_sub_fence ''```'' r" for r
    using assms(4) by (intro re_sub_fence_no_backtick) simp_all
  have plain: "remove_code_fences t = t"
    using j [of "[]"] p [of "[]"] strip_tight [OF assms(1-3)]
    by (simp add: remove_code_fences_def)
  have tail_j: "re_sub_fence ''```json'' (CHR 0x0A # ''```'') = CHR 0x0A # ''```''"
    by simp
  have tail_p: "re_sub_fence ''```'' (CHR 0x0A # ''```'') = [CHR 0x0A]"
    by simp
  have "re_sub_fence ''```json'' (fence_json t) = t @ CHR 0x0A # ''```''"
    using dw [of "CHR 0x0A # ''```''"] j [of "CHR 0x0A # ''```''"] tail_j
    by (simp add: fence_json_def)
  then have fj: "remove_code_fences (fence_json t) = t"
    using p [of "CHR 0x0A # ''```''"] tail_p strip_tight_newline [OF assms(1-3)]
    by (simp add: remove_code_fences_def)
  have "re_sub_fence ''```json'' (fence_plain t) = fence_plain t"
    using j [of "CHR 0x0A # ''```''"] tail_j by (simp add: fence_plain_def)
  moreover have "re_sub_fence ''```'' (fence_plain t) = t @ [CHR 0x0A]"
    using dw [of "CHR 0x0A # ''```''"] p [of "CHR 0x0A # ''```''"] tail_p
    by (simp add: fence_plain_def)
  ultimately have fp: "remove_code_fences (fence_plain t) = t"
    using strip_tight_newline [OF assms(1-3)] by (simp add: remove_code_fences_def)
  from assms(5) plain fj fp show ?thesis
    by (auto simp: wrappings_def)
qed

lemma re_search_greedy_whole:
  assumes "t \<noteq> []" "hd t = opn" "last t = cls"
  shows "re_search_greedy opn cls t = Some t"
proof -
  have "dropWhile (\<lambda>c. c \<noteq> opn) t = t"
    using assms(1,2) by (cases t) simp_all
  moreover have "dropWhile (\<lambda>c. c \<noteq> cls) (rev t) = rev t"
    using assms(1,3) by (cases "rev t") (simp_all add: hd_rev [symmetric])
  ultimately show ?thesis using assms(1,3) last_in_set [of t]
    by (simp add: re_search_greedy_def)
qed

lemma re_search_greedy_absent: "opn \<notin> set t \<Longrightarrow> re_search_greedy opn cls t = None"
proof -
  assume "opn \<notin> set t"
  then have d: "dropWhile (\<lambda>c. c \<noteq> opn) t = []" by (induction t) auto
  show ?thesis unfolding re_search_greedy_def Let_def d by simp
qed

lemma insert_commas_none: "(\<And>c. \<not> closing c) \<Longrightarrow> insert_commas closing t = t"
  by (induction t) (simp_all add: insert_commas_def)

lemma insert_commas_Cons:
  "insert_commas closing (c # t)
     = (if closing c then CHR '','' # c # insert_commas closing t else c # insert_commas closing t)"
  by (simp add: insert_commas_def)

lemma insert_commas_Nil: "insert_commas closing [] = []"
  by (simp add: insert_commas_def)

lemma hd_after_spaces_insert_commas:
  assumes "closing cls" "\<And>c. closing c \<Longrightarrow> \<not> is_space c \<and> c \<noteq> CHR '',''"
  shows "dropWhile is_space (insert_commas closing r) = []
     \<or> hd (dropWhile is_space (insert_commas closing r)) \<noteq> cls"
proof (induction r)
  case Nil
  show ?case by (simp add: insert_commas_Nil)
next
  case (Cons d r)
  have comma: "\<not> is_space (CHR '','')" by (simp add: is_space_def)
  show ?case
  proof (cases "closing d")
    case True
    with assms(1,2) comma show ?thesis by (auto simp: insert_commas_Cons)
  next
    case False
    with assms(1) have "d \<noteq> cls" by auto
    with False Cons show ?thesis by (auto simp: insert_commas_Cons)
  qed
qed

lemma re_sub_trailing_comma_insert_commas:
  assumes "closing cls" "\<And>c. closing c \<Longrightarrow> \<not> is_space c \<and> c \<noteq> CHR '',''"
  shows "re_sub_trailing_comma cls (insert_commas closing t)
     = insert_commas (\<lambda>c. closing c \<and> c \<noteq> cls) t"
proof (induction t)
  case Nil
  show ?case by (simp add: insert_commas_Nil)
next
  case (Cons c t)
  have h: "dropWhile is_space (insert_commas closing t) = []
      \<or> hd (dropWhile is_space (insert_commas closing t)) \<noteq> cls"
    using assms by (intro hd_after_spaces_insert_commas) auto
  show ?case
  proof (cases "closing c")
    case True
    with assms(2) have c: "\<not> is_space c" "c \<noteq> CHR '',''" by auto
    show ?thesis
    proof (cases "c = cls")
      case True
      with \<open>closing c\<close> c Cons show ?thesis by (simp add: insert_commas_Cons)
    next
      case False
      with \<open>closing c\<close> c Cons show ?thesis by (simp add: insert_commas_Cons)
    qed
  next
    case False
    with h Cons show ?thesis by (auto simp: insert_commas_Cons)
  qed
qed

lemma repair_with_trailing_commas:
  "re_sub_trailing_comma (CHR ''}'') (re_sub_trailing_comma (CHR '']'') (with_trailing_commas t)) = t"
  "re_sub_trailing_comma (CHR '']'') (re_sub_trailing_comma (CHR ''}'') (with_trailing_commas t)) = t"
proof -
  let ?P = "\<lambda>c. c = CHR '']'' \<or> c = CHR ''}''"
  have a: "re_sub_trailing_comma (CHR '']'') (insert_commas ?P t)
      = insert_commas (\<lambda>c. ?P c \<and> c \<noteq> CHR '']'') t"
    by (rule re_sub_trailing_comma_insert_commas) (auto simp: is_space_def)
  have b: "re_sub_trailing_comma (CHR ''}'') (insert_commas (\<lambda>c. ?P c \<and> c \<noteq> CHR '']'') t)
      = insert_commas (\<lambda>c. (?P c \<and> c \<noteq> CHR '']'') \<and> c \<noteq> CHR ''}'') t"
    by (rule re_sub_trailing_comma_insert_commas) (auto simp: is_space_def)
  have c: "re_sub_trailing_comma (CHR ''}'') (insert_commas ?P t)
      = insert_commas (\<lambda>c. ?P c \<and> c \<noteq> CHR ''}'') t"
    by (rule re_sub_trailing_comma_insert_commas) (auto simp: is_space_def)
  have d: "re_sub_trailing_comma (CHR '']'') (insert_commas (\<lambda>c. ?P c \<and> c \<noteq> CHR ''}'') t)
      = insert_commas (\<lambda>c. (?P c \<and> c \<noteq> CHR ''}'') \<and> c \<noteq> CHR '']'') t"
    by (rule re_sub_trailing_comma_insert_commas) (auto simp: is_space_def)
  show "re_sub_trailing_comma (CHR ''}'') (re_sub_trailing_comma (CHR '']'') (with_trailing_commas t)) = t"
    unfolding with_trailing_commas_def a b by (rule insert_commas_none) auto
  show "re_sub_trailing_comma (CHR '']'') (re_sub_trailing_comma (CHR ''}'') (with_trailing_commas t)) = t"
    unfolding with_trailing_commas_def c d by (rule insert_commas_none) auto
qed

lemma set_insert_commas: "set (insert_commas closing t) \<subseteq> insert (CHR '','') (set t)"
  by (induction t) (auto simp: insert_commas_Cons insert_commas_Nil)

lemma hd_insert_commas: "t \<noteq> [] \<Longrightarrow> \<not> closing (hd t) \<Longrightarrow> hd (insert_commas closing t) = hd t"
  by (cases t) (simp_all add: insert_commas_Cons)

lemma last_insert_commas: "t \<noteq> [] \<Longrightarrow> last (insert_commas closing t) = last t"
proof (induction t)
  case Nil
  then show ?case by simp
next
  case (Cons c t)
  show ?case
  proof (cases "t = []")
    case True
    then show ?thesis by (simp add: insert_commas_Cons insert_commas_Nil)
  next
    case False
    then have "insert_commas closing t \<noteq> []"
      by (cases t) (simp_all add: insert_commas_Cons)
    with False Cons show ?thesis by (simp add: insert_commas_Cons)
  qed
qed

lemma insert_commas_nonempty: "t \<noteq> [] \<Longrightarrow> insert_commas closing t \<noteq> []"
  by (cases t) (simp_all add: insert_commas_Cons)

lemma array_text_with_trailing_commas: "array_text t \<Longrightarrow> array_text (with_trailing_commas t)"
  using set_insert_commas [of "\<lambda>c. c = CHR '']'' \<or> c = CHR ''}''" t]
  by (auto simp: array_text_def with_trailing_commas_def insert_commas_nonempty
      hd_insert_commas last_insert_commas)

lemma object_text_with_trailing_commas: "object_text t \<Longrightarrow> object_text (with_trailing_commas t)"
  using set_insert_commas [of "\<lambda>c. c = CHR '']'' \<or> c = CHR ''}''" t]
  by (auto simp: object_text_def with_trailing_commas_def insert_commas_nonempty
      hd_insert_commas last_insert_commas)

lemma no_open_bracket_with_trailing_commas:
  "CHR ''['' \<notin> set t \<Longrightarrow> CHR ''['' \<notin> set (with_trailing_commas t)"
  using set_insert_commas [of "\<lambda>c. c = CHR '']'' \<or> c = CHR ''}''" t]
  by (auto simp: with_trailing_commas_def)


lemma tight_array_text:
  assumes "array_text t"
  shows "t \<noteq> []" "\<not> is_space (hd t)" "\<not> is_space (last t)" "CHR 0x60 \<notin> set t"
  using assms by (simp_all add: array_text_def is_space_def)

lemma tight_object_text:
  assumes "object_text t"
  shows "t \<noteq> []" "\<not> is_space (hd t)" "\<not> is_space (last t)" "CHR 0x60 \<notin> set t"
  using assms by (simp_all add: object_text_def is_space_def)

lemma ce_extract_array_text:
  assumes "array_text t" "w \<in> set (wrappings t)"
  shows "ce_extract_json_from_text loads w
     = (case loads t of
          Some v \<Rightarrow> Some v
        | None \<Rightarrow> loads (re_sub_trailing_comma (CHR ''}'') (re_sub_trailing_comma (CHR '']'') t)))"
proof -
  have r: "remove_code_fences w = t"
    using tight_array_text [OF assms(1)] assms(2) by (rule remove_code_fences_wrappings)
  have m: "re_search_greedy (CHR ''['') (CHR '']'') t = Some t"
    using assms(1) by (intro re_search_greedy_whole) (simp_all add: array_text_def)
  show ?thesis by (simp add: ce_extract_json_from_text_def r m)
qed

lemma ce_extract_object_text:
  assumes "object_text t" "CHR ''['' \<notin> set t" "w \<in> set (wrappings t)"
  shows "ce_extract_json_from_text loads w
     = (case loads t of
          Some v \<Rightarrow> Some v
        | None \<Rightarrow> loads (re_sub_trailing_comma (CHR ''}'') (re_sub_trailing_comma (CHR '']'') t)))"
proof -
  have r: "remove_code_fences w = t"
    using tight_object_text [OF assms(1)] assms(3) by (rule remove_code_fences_wrappings)
  have n: "re_search_greedy (CHR ''['') (CHR '']'') t = None"
    using assms(2) by (rule re_search_greedy_absent)
  have m: "re_search_greedy (CHR ''{'') (CHR ''}'') t = Some t"
    using assms(1) by (intro re_search_greedy_whole) (simp_all add: object_text_def)
  show ?thesis by (simp add: ce_extract_json_from_text_def r n m)
qed

lemma fc_extract_object_text:
  assumes "object_text t" "w \<in> set (wrappings t)"
  shows "fc_extract_json_from_text loads w
     = (case loads t of
          Some v \<Rightarrow> v
        | None \<Rightarrow>
            (case loads (re_sub_trailing_comma (CHR '']'') (re_sub_trailing_comma (CHR ''}'') t)) of
               Some v \<Rightarrow> v
             | None \<Rightarrow> fc_parse_fallback))"
proof -
  have r: "remove_code_fences w = t"
    using tight_object_text [OF assms(1)] assms(2) by (rule remove_code_fences_wrappings)
  have m: "re_search_greedy (CHR ''{'') (CHR ''}'') t = Some t"
    using assms(1) by (intro re_search_greedy_whole) (simp_all add: object_text_def)
  show ?thesis by (simp add: fc_extract_json_from_text_def r m)
qed

text \<open>
  C7, as amended. Let \<open>t\<close> be a text without backticks that the decoder accepts with
  value \<open>v\<close>. If \<open>t\<close> starts with \<open>[\<close> and ends with \<open>]\<close>, the parser of the claim
  extractor returns \<open>v\<close> for \<open>t\<close> itself and for \<open>t\<close> inside a \<open>```json\<close> or a \<open>```\<close> fence.
  If \<open>t\<close> starts with \<open>{\<close> and ends with \<open>}\<close>, the parser of the fact checker returns \<open>v\<close>
  for the same three texts, and so does the parser of the claim extractor when \<open>t\<close> holds
  no \<open>[\<close>. The same holds for the text with a comma inserted before every \<open>]\<close> and \<open>}\<close>
  of \<open>t\<close>, fenced or not, whenever the decoder rejects that text (as \<open>json.loads\<close> rejects
  a trailing comma). The statement holds for every decoder.
\<close>

theorem structured_output_round_trip:
  "loads t = Some v \<longrightarrow>
     (array_text t \<longrightarrow>
        (\<forall>w \<in> set (wrappings t). ce_extract_json_from_text loads w = Some v)
        \<and> (loads (with_trailing_commas t) = None \<longrightarrow>
             (\<forall>w \<in> set (wrappings (with_trailing_commas t)).
                ce_extract_json_from_text loads w = Some v)))
     \<and> (object_text t \<longrightarrow>
        (\<forall>w \<in> set (wrappings t). fc_extract_json_from_text loads w = v)
        \<and> (loads (with_trailing_commas t) = None \<longrightarrow>
             (\<forall>w \<in> set (wrappings (with_trailing_commas t)).
                fc_extract_json_from_text loads w = v))
        \<and> (CHR ''['' \<notin> set t \<longrightarrow>
             (\<forall>w \<in> set (wrappings t). ce_extract_json_from_text loads w = Some v)
             \<and> (loads (with_trailing_commas t) = None \<longrightarrow>
                  (\<forall>w \<in> set (wrappings (with_trailing_commas t)).
                     ce_extract_json_from_text loads w = Some v))))"
proof (intro impI conjI ballI)
  fix w
  assume l: "loads t = Some v" and a: "array_text t" and w: "w \<in> set (wrappings t)"
  show "ce_extract_json_from_text loads w = Some v"
    by (simp add: ce_extract_array_text [OF a w] l)
next
  fix w
  assume l: "loads t = Some v" and a: "array_text t"
    and n: "loads (with_trailing_commas t) = None"
    and w: "w \<in> set (wrappings (with_trailing_commas t))"
  show "ce_extract_json_from_text loads w = Some v"
    by (simp add: ce_extract_array_text [OF array_text_with_trailing_commas [OF a] w]
        n l repair_with_trailing_commas)
next
  fix w
  assume l: "loads t = Some v" and a: "object_text t" and w: "w \<in> set (wrappings t)"
  show "fc_extract_json_from_text loads w = v"
    by (simp add: fc_extract_object_text [OF a w] l)
next
  fix w
  assume l: "loads t = Some v" and a: "object_text t"
    and n: "loads (with_trailing_commas t) = None"
    and w: "w \<in> set (wrappings (with_trailing_commas t))"
  show "fc_extract_json_from_text loads w = v"
    by (simp add: fc_extract_object_text [OF object_text_with_trailing_commas [OF a] w]
        n l repair_with_trailing_commas)
next
  fix w
  assume l: "loads t = Some v" and a: "object_text t" and b: "CHR ''['' \<notin> set t"
    and w: "w \<in> set (wrappings t)"
  show "ce_extract_json_from_text loads w = Some v"
    by (simp add: ce_extract_object_text [OF a b w] l)
next
  fix w
  assume l: "loads t = Some v" and a: "object_text t" and b: "CHR ''['' \<notin> set t"
    and n: "loads (with_trailing_commas t) = None"
    and w: "w \<in> set (wrappings (with_trailing_commas t))"
  show "ce_extract_json_from_text loads w = Some v"
    by (simp add: ce_extract_object_text [OF object_text_with_trailing_commas [OF a]
          no_open_bracket_with_trailing_commas [OF b] w]
        n l repair_with_trailing_commas)
qed

theorem structured_output_round_trip_witness:
  \<open>json_loads ''["a", ["b"]]'' = Some (JArr [JStr ''a'', JArr [JStr ''b'']])
   \<and> fence_json (with_trailing_commas ''["a", ["b"]]'')
       = ''```json'' @ [CHR 0x0A] @ ''["a", ["b",],]'' @ [CHR 0x0A] @ ''```''
   \<and> ce_extract_json_from_text json_loads (fence_json (with_trailing_commas ''["a", ["b"]]''))
       = Some (JArr [JStr ''a'', JArr [JStr ''b'']])\<close>
proof -
  let ?t = \<open>''["a", ["b"]]''\<close>
  let ?v = "JArr [JStr ''a'', JArr [JStr ''b'']]"
  have l: "json_loads ?t = Some ?v" by code_simp
  have a: "array_text ?t" by code_simp
  have n: "json_loads (with_trailing_commas ?t) = None" by code_simp
  have f: \<open>fence_json (with_trailing_commas ?t)
      = ''```json'' @ [CHR 0x0A] @ ''["a", ["b",],]'' @ [CHR 0x0A] @ ''```''\<close>
    by code_simp
  have w: "fence_json (with_trailing_commas ?t) \<in> set (wrappings (with_trailing_commas ?t))"
    by (simp add: wrappings_def)
  from structured_output_round_trip [of json_loads ?t ?v] l a n w
  have "ce_extract_json_from_text json_loads (fence_json (with_trailing_commas ?t)) = Some ?v"
    by blast
  with l f show ?thesis by simp
qed

text \<open>
  C7 as stated fails. The parser of the claim extractor looks for \<open>[...]\<close> first, so for
  an object that holds an array it returns the inner array. The parser of the fact checker
  looks for \<open>{...}\<close> only, so for an array of numbers it returns its fixed fallback. And
  the repair of trailing commas also rewrites the inside of strings: the array with the
  one string \<open>x,]y\<close>, rendered with a trailing comma, comes back with the string \<open>x]y\<close>.
\<close>

theorem structured_output_counterexample:
  \<open>json_loads ''{"a": [1]}'' = Some (JObj [(''a'', JArr [JNum 1])])
   \<and> ce_extract_json_from_text json_loads ''{"a": [1]}'' = Some (JArr [JNum 1])
   \<and> json_loads ''[1, 2]'' = Some (JArr [JNum 1, JNum 2])
   \<and> fc_extract_json_from_text json_loads ''[1, 2]'' = fc_parse_fallback
   \<and> json_loads ''["x,]y"]'' = Some (JArr [JStr ''x,]y''])
   \<and> ce_extract_json_from_text json_loads ''["x,]y",]'' = Some (JArr [JStr ''x]y''])\<close>
  by (intro conjI; code_simp)

end
